theory Spec2Isabelle
  imports Main "HOL-Library.Multiset" "HOL-Library.Word"
begin

section \<open>JavaScript numbers\<close>

text \<open>
  The amounts handled by \<^verbatim>\<open>getUTXos.js\<close> and \<^verbatim>\<open>sendBTC.js\<close> are satoshi counts held
  in JavaScript numbers, that is IEEE 754 doubles.  The model covers the doubles that are
  integers, the two infinities and \<^verbatim>\<open>NaN\<close>.  A double with an integer value is written
  \<open>Num i\<close>; every integer of magnitude at most \<open>2^53\<close> is one, and beyond that only the
  multiples of a power of two with a significand of 53 bits are.  The sum of two such
  doubles is the exact sum rounded to the nearest double, ties to the even significand,
  and an infinity from \<open>2^1024\<close> on.  The sign of zero is not modelled: the code never
  observes it.  The display field \<^verbatim>\<open>availableBalanceBTC\<close> (a division by \<open>10^8\<close>) is
  left out.
\<close>

datatype jsnum = Num int | PosInf | NegInf | NaN

text \<open>The number of bits of a positive integer.\<close>

function bitlength :: "int \<Rightarrow> nat" where
  "bitlength x = (if x \<le> 0 then 0 else Suc (bitlength (x div 2)))"
  by pat_completeness auto
termination
  by (relation "measure nat") simp_all

declare bitlength.simps [simp del]

text \<open>Rounding of an exact integer result to the nearest double.\<close>

definition js_round :: "int \<Rightarrow> jsnum" where
  "js_round x =
     (if \<bar>x\<bar> \<le> 2 ^ 53 then Num x
      else
        (let e = bitlength \<bar>x\<bar> - 53;
             q = \<bar>x\<bar> div 2 ^ e;
             r = \<bar>x\<bar> mod 2 ^ e;
             h = 2 ^ (e - 1);
             m = (if r > h \<or> (r = h \<and> odd q) then q + 1 else q);
             y = m * 2 ^ e
         in if y \<ge> 2 ^ 1024 then (if x > 0 then PosInf else NegInf)
            else Num (if x > 0 then y else - y)))"

fun js_add :: "jsnum \<Rightarrow> jsnum \<Rightarrow> jsnum" where
  "js_add (Num a) (Num b) = js_round (a + b)"
| "js_add NaN _ = NaN"
| "js_add _ NaN = NaN"
| "js_add PosInf NegInf = NaN"
| "js_add NegInf PosInf = NaN"
| "js_add PosInf _ = PosInf"
| "js_add _ PosInf = PosInf"
| "js_add NegInf _ = NegInf"
| "js_add _ NegInf = NegInf"

fun js_neg :: "jsnum \<Rightarrow> jsnum" where
  "js_neg (Num a) = Num (- a)"
| "js_neg PosInf = NegInf"
| "js_neg NegInf = PosInf"
| "js_neg NaN = NaN"

definition js_sub :: "jsnum \<Rightarrow> jsnum \<Rightarrow> jsnum" where
  "js_sub x y = js_add x (js_neg y)"

text \<open>The comparisons \<^verbatim>\<open>x < y\<close>, \<^verbatim>\<open>x > y\<close> and \<^verbatim>\<open>x >= y\<close>; all are false on \<^verbatim>\<open>NaN\<close>.\<close>

fun js_lt :: "jsnum \<Rightarrow> jsnum \<Rightarrow> bool" where
  "js_lt (Num a) (Num b) = (a < b)"
| "js_lt NaN _ = False"
| "js_lt _ NaN = False"
| "js_lt PosInf _ = False"
| "js_lt _ NegInf = False"
| "js_lt _ PosInf = True"
| "js_lt NegInf _ = True"

definition js_gt :: "jsnum \<Rightarrow> jsnum \<Rightarrow> bool" where
  "js_gt x y = js_lt y x"

definition js_ge :: "jsnum \<Rightarrow> jsnum \<Rightarrow> bool" where
  "js_ge x y = (js_lt y x \<or> (x \<noteq> NaN \<and> x = y))"

text \<open>
  \<^verbatim>\<open>ToNumber\<close> of a numeric field that may be absent: an absent field reads as
  \<^verbatim>\<open>undefined\<close>, which turns a sum into \<^verbatim>\<open>NaN\<close>.
\<close>

fun toNumber :: "int option \<Rightarrow> jsnum" where
  "toNumber (Some v) = Num v"
| "toNumber None = NaN"

section \<open>Template strings\<close>

text \<open>
  The only numbers the code puts into a key are array indices and the output index of a
  \<open>prevout\<close>.  Both are natural numbers far below \<open>10^21\<close>, which JavaScript prints in
  plain decimal.
\<close>

definition digit_char :: "nat \<Rightarrow> char" where
  "digit_char n = char_of (48 + n)"

fun dec_nat :: "nat \<Rightarrow> string" where
  "dec_nat n = (if n < 10 then [digit_char n]
                else dec_nat (n div 10) @ [digit_char (n mod 10)])"

declare dec_nat.simps [simp del]

text \<open>The text \<^verbatim>\<open>`${s}`\<close> of a string field that may be absent.\<close>

fun js_str :: "string option \<Rightarrow> string" where
  "js_str (Some s) = s"
| "js_str None = ''undefined''"

text \<open>The key \<^verbatim>\<open>`${hash}:${index}`\<close> built at lines 69 and 84 of \<^verbatim>\<open>getUTXos.js\<close>.\<close>

definition utxoKey :: "string \<Rightarrow> nat \<Rightarrow> string" where
  "utxoKey h i = h @ '':'' @ dec_nat i"

text \<open>
  What the code throws: the \<open>TypeError\<close> of a failed property read, and the \<open>Error\<close> of
  line 212 of \<^verbatim>\<open>sendBTC.js\<close>, whose message is the fixed text
  \<^verbatim>\<open>Insufficient confirmed funds. Have ${inputSum}, need ${requiredAmount} satoshis.\<close>
  around two numbers; the message is kept as these two numbers.
\<close>

datatype message = Insufficient jsnum jsnum

datatype error = TypeError | Error message

section \<open>\<^verbatim>\<open>getUTXos.js\<close>: the transaction records\<close>

text \<open>
  The records returned by the indexer, with the fields \<open>analyzeUTXOs\<close> reads.  A field
  whose absence the code can meet is optional: the \<open>hash\<close>, \<open>blockNumber\<close>, \<open>outputs\<close>
  and \<open>inputs\<close> of a transaction, the \<open>address\<close> and \<open>value\<close> of an output or of a
  coin, and the \<open>coin\<close> and \<open>prevout\<close> objects of an input.  \<open>None\<close> is the absent
  field, which reads as \<^verbatim>\<open>undefined\<close>.  For \<open>blockNumber\<close>, \<open>outputs\<close>, \<open>inputs\<close>,
  \<open>coin\<close>, \<open>prevout\<close> and the addresses the code treats \<^verbatim>\<open>null\<close> in the same way, so
  \<open>None\<close> covers it as well; a \<open>hash\<close> or a value that is \<^verbatim>\<open>null\<close> is not modelled.
  The \<open>hash\<close> and \<open>index\<close> of a \<open>prevout\<close> that is present are taken to be present,
  and the index to be an unsigned 32-bit number, as the output index of a Bitcoin
  transaction is.  The numeric fields hold doubles with an integer value.
\<close>

record coin =
  coin_address :: "string option"
  coin_value :: "int option"

record prevout =
  prevout_hash :: string
  prevout_index :: "32 word"

record txinput =
  input_coin :: "coin option"
  input_prevout :: "prevout option"

record txoutput =
  output_address :: "string option"
  output_value :: "int option"

record tx =
  tx_hash :: "string option"
  tx_blockNumber :: "int option"
  tx_outputs :: "txoutput list option"
  tx_inputs :: "txinput list option"

text \<open>The values of the \<open>utxos\<close> map (line 89) and the elements of \<open>unspentUTXOs\<close> (line 134).\<close>

record utxo =
  utxo_value :: "int option"
  utxo_spent :: bool
  utxo_confirmed :: bool

record 'v unspent =
  unspent_utxo :: string
  unspent_value :: 'v
  unspent_confirmed :: bool

text \<open>
  A JavaScript \<open>Map\<close> iterates in insertion order, and \<open>set\<close> on a key that is present
  replaces the value where it stands: an association list without repeated keys.
\<close>

fun map_set :: "'k \<Rightarrow> 'v \<Rightarrow> ('k \<times> 'v) list \<Rightarrow> ('k \<times> 'v) list" where
  "map_set k v [] = [(k, v)]"
| "map_set k v ((k', v') # m) =
     (if k' = k then (k', v) # m else (k', v') # map_set k v m)"

text \<open>The local variables of \<open>analyzeUTXOs\<close> that the second pass updates.\<close>

record state =
  st_utxos :: "(string \<times> utxo) list"
  st_incoming :: jsnum
  st_outgoing :: jsnum
  st_incomingPending :: jsnum
  st_outgoingPending :: jsnum

text \<open>The object \<open>analyzeUTXOs\<close> returns (lines 125 to 139).\<close>

record balance =
  incoming :: jsnum
  outgoing :: jsnum
  incomingPending :: jsnum
  outgoingPending :: jsnum
  availableBalance :: jsnum
  unspentUTXOs :: "int option unspent list"

section \<open>\<^verbatim>\<open>getUTXos.js\<close>: \<open>analyzeUTXOs\<close>\<close>

text \<open>The test \<^verbatim>\<open>input.coin && input.coin.address === address\<close> of lines 68 and 105.\<close>

definition spends :: "string \<Rightarrow> txinput \<Rightarrow> bool" where
  "spends address inp =
     (case input_coin inp of None \<Rightarrow> False | Some c \<Rightarrow> coin_address c = Some address)"

text \<open>
  First pass, lines 66 to 73.  Reading \<open>input.prevout.hash\<close> when \<open>prevout\<close> is absent,
  and iterating over \<open>tx.inputs\<close> when it is absent, throw a \<open>TypeError\<close>.
\<close>

fun markSpent :: "string \<Rightarrow> txinput list \<Rightarrow> string set \<Rightarrow> error + string set" where
  "markSpent address [] spentUtxos = Inr spentUtxos"
| "markSpent address (inp # rest) spentUtxos =
     (if spends address inp then
        (case input_prevout inp of
           None \<Rightarrow> Inl TypeError
         | Some p \<Rightarrow>
             markSpent address rest
               (insert (utxoKey (prevout_hash p) (unat (prevout_index p))) spentUtxos))
      else markSpent address rest spentUtxos)"

fun firstPass :: "string \<Rightarrow> tx list \<Rightarrow> string set \<Rightarrow> error + string set" where
  "firstPass address [] spentUtxos = Inr spentUtxos"
| "firstPass address (t # rest) spentUtxos =
     (case tx_inputs t of
        None \<Rightarrow> Inl TypeError
      | Some ins \<Rightarrow>
          (case markSpent address ins spentUtxos of
             Inl e \<Rightarrow> Inl e
           | Inr spentUtxos' \<Rightarrow> firstPass address rest spentUtxos'))"

text \<open>Second pass, the loop over the outputs of one transaction (lines 80 to 101).\<close>

fun processOutputs ::
  "string \<Rightarrow> string set \<Rightarrow> string option \<Rightarrow> bool \<Rightarrow> nat \<Rightarrow> txoutput list \<Rightarrow> state \<Rightarrow> state" where
  "processOutputs address spentUtxos h isConfirmed i [] st = st"
| "processOutputs address spentUtxos h isConfirmed i (out # rest) st =
     processOutputs address spentUtxos h isConfirmed (Suc i) rest
       (if output_address out = Some address then
          (let key = utxoKey (js_str h) i;
               v = output_value out;
               isSpent = (key \<in> spentUtxos);
               st' = st\<lparr>st_utxos :=
                        map_set key
                          \<lparr>utxo_value = v, utxo_spent = isSpent, utxo_confirmed = isConfirmed\<rparr>
                          (st_utxos st)\<rparr>
           in if isConfirmed then st'\<lparr>st_incoming := js_add (st_incoming st') (toNumber v)\<rparr>
              else st'\<lparr>st_incomingPending := js_add (st_incomingPending st') (toNumber v)\<rparr>)
        else st)"

text \<open>Second pass, the loop over the inputs of one transaction (lines 104 to 114).\<close>

fun processInputs :: "string \<Rightarrow> bool \<Rightarrow> txinput list \<Rightarrow> state \<Rightarrow> state" where
  "processInputs address isConfirmed [] st = st"
| "processInputs address isConfirmed (inp # rest) st =
     processInputs address isConfirmed rest
       (case input_coin inp of
          None \<Rightarrow> st
        | Some c \<Rightarrow>
            if coin_address c = Some address then
              (if isConfirmed
               then st\<lparr>st_outgoing := js_add (st_outgoing st) (toNumber (coin_value c))\<rparr>
               else st\<lparr>st_outgoingPending :=
                        js_add (st_outgoingPending st) (toNumber (coin_value c))\<rparr>)
            else st)"

text \<open>Second pass, lines 76 to 115; \<open>tx.outputs.length\<close> throws when \<open>outputs\<close> is absent.\<close>

fun secondPass :: "string \<Rightarrow> string set \<Rightarrow> tx list \<Rightarrow> state \<Rightarrow> error + state" where
  "secondPass address spentUtxos [] st = Inr st"
| "secondPass address spentUtxos (t # rest) st =
     (let isConfirmed = (tx_blockNumber t \<noteq> None) in
      case tx_outputs t of
        None \<Rightarrow> Inl TypeError
      | Some outs \<Rightarrow>
          (let st1 = processOutputs address spentUtxos (tx_hash t) isConfirmed 0 outs st in
           case tx_inputs t of
             None \<Rightarrow> Inl TypeError
           | Some ins \<Rightarrow>
               secondPass address spentUtxos rest (processInputs address isConfirmed ins st1)))"

text \<open>The loop of lines 118 to 123.\<close>

fun sumAvailable :: "(string \<times> utxo) list \<Rightarrow> jsnum \<Rightarrow> jsnum" where
  "sumAvailable [] available = available"
| "sumAvailable ((key, u) # rest) available =
     sumAvailable rest
       (if \<not> utxo_spent u \<and> utxo_confirmed u
        then js_add available (toNumber (utxo_value u))
        else available)"

definition initial_state :: state where
  "initial_state =
     \<lparr>st_utxos = [], st_incoming = Num 0, st_outgoing = Num 0,
      st_incomingPending = Num 0, st_outgoingPending = Num 0\<rparr>"

text \<open>The local variables of \<open>analyzeUTXOs\<close> when line 117 is reached.\<close>

definition analyzeUTXOs_state :: "string \<Rightarrow> tx list \<Rightarrow> error + state" where
  "analyzeUTXOs_state address transactions =
     (case firstPass address transactions {} of
        Inl e \<Rightarrow> Inl e
      | Inr spentUtxos \<Rightarrow> secondPass address spentUtxos transactions initial_state)"

definition analyzeUTXOs :: "string \<Rightarrow> tx list \<Rightarrow> error + balance" where
  "analyzeUTXOs address transactions =
     (case analyzeUTXOs_state address transactions of
        Inl e \<Rightarrow> Inl e
      | Inr st \<Rightarrow>
          Inr \<lparr>incoming = st_incoming st,
               outgoing = st_outgoing st,
               incomingPending = st_incomingPending st,
               outgoingPending = st_outgoingPending st,
               availableBalance = sumAvailable (st_utxos st) (Num 0),
               unspentUTXOs =
                 map (\<lambda>(key, u). \<lparr>unspent_utxo = key, unspent_value = utxo_value u,
                                   unspent_confirmed = utxo_confirmed u\<rparr>)
                   (filter (\<lambda>(key, u). \<not> utxo_spent u) (st_utxos st))\<rparr>)"

section \<open>\<^verbatim>\<open>sendBTC.js\<close>: the largest amount that can be sent\<close>

text \<open>
  \<^verbatim>\<open>
  function calculateMaxSendable(availableBalance, feeInSatoshis) {
    const maxSendable = availableBalance - feeInSatoshis;
    return maxSendable > 0 ? maxSendable : 0;
  }
  \<close>
\<close>

definition calculateMaxSendable :: "jsnum \<Rightarrow> jsnum \<Rightarrow> jsnum" where
  "calculateMaxSendable available feeInSatoshis =
     (let maxSendable = js_sub available feeInSatoshis
      in if js_gt maxSendable (Num 0) then maxSendable else Num 0)"

section \<open>\<^verbatim>\<open>sendBTC.js\<close>: the selection of inputs in \<open>sendTransaction\<close>\<close>

text \<open>
  Lines 193 to 213 of \<open>sendTransaction\<close>, as a function of \<open>balance.unspentUTXOs\<close> and of
  the two amounts in satoshis, which are doubles with an integer value.  The comparator
  \<^verbatim>\<open>(a, b) => b.value - a.value\<close> is only consistent when every value is a number, so
  the entries here carry an \<open>int\<close>.  \<open>Array.prototype.sort\<close> is stable (the README asks
  for Node.js 14 or higher) and places \<open>a\<close> after \<open>b\<close> when the comparator is positive;
  with a consistent comparator its result is the one that a stable insertion sort
  computes.
\<close>

fun insert_sorted :: "('a \<Rightarrow> 'a \<Rightarrow> jsnum) \<Rightarrow> 'a \<Rightarrow> 'a list \<Rightarrow> 'a list" where
  "insert_sorted cmp x [] = [x]"
| "insert_sorted cmp x (y # ys) =
     (if js_gt (cmp x y) (Num 0) then y # insert_sorted cmp x ys else x # y # ys)"

definition array_sort :: "('a \<Rightarrow> 'a \<Rightarrow> jsnum) \<Rightarrow> 'a list \<Rightarrow> 'a list" where
  "array_sort cmp xs = foldr (insert_sorted cmp) xs []"

definition byValueDesc :: "int unspent \<Rightarrow> int unspent \<Rightarrow> jsnum" where
  "byValueDesc a b = js_sub (Num (unspent_value b)) (Num (unspent_value a))"

definition sortedUtxos :: "int unspent list \<Rightarrow> int unspent list" where
  "sortedUtxos unspentUTXOs' = array_sort byValueDesc (filter unspent_confirmed unspentUTXOs')"

text \<open>The loop of lines 202 to 209: push, add, and leave as soon as the sum suffices.\<close>

fun selectLoop ::
  "int unspent list \<Rightarrow> jsnum \<Rightarrow> int unspent list \<Rightarrow> jsnum \<Rightarrow> int unspent list \<times> jsnum" where
  "selectLoop [] requiredAmount selected inputSum' = (selected, inputSum')"
| "selectLoop (u # rest) requiredAmount selected inputSum' =
     (let selected' = selected @ [u];
          inputSum'' = js_add inputSum' (Num (unspent_value u))
      in if js_ge inputSum'' requiredAmount then (selected', inputSum'')
         else selectLoop rest requiredAmount selected' inputSum'')"

record plan =
  selectedUtxos :: "int unspent list"
  inputSum :: jsnum

definition sendTransaction_select :: "int unspent list \<Rightarrow> int \<Rightarrow> int \<Rightarrow> error + plan" where
  "sendTransaction_select unspentUTXOs' amountSatoshis feeSatoshis =
     (let requiredAmount = js_add (Num amountSatoshis) (Num feeSatoshis);
          (selected, total) = selectLoop (sortedUtxos unspentUTXOs') requiredAmount [] (Num 0)
      in if js_lt total requiredAmount then Inl (Error (Insufficient total requiredAmount))
         else Inr \<lparr>selectedUtxos = selected, inputSum = total\<rparr>)"

section \<open>Vocabulary for the properties\<close>

text \<open>A transaction counts as confirmed when it has a block number (line 77).\<close>

definition confirmedTx :: "tx \<Rightarrow> bool" where
  "confirmedTx t = (tx_blockNumber t \<noteq> None)"

text \<open>
  A transaction consumes the output reference \<open>(h, i)\<close> of the tracked address when one
  of its inputs passes the address test and has that reference as its \<open>prevout\<close>.
\<close>

definition consumes :: "string \<Rightarrow> string \<Rightarrow> nat \<Rightarrow> tx \<Rightarrow> bool" where
  "consumes address h i t =
     (case tx_inputs t of
        None \<Rightarrow> False
      | Some ins \<Rightarrow>
          (\<exists>inp \<in> set ins. spends address inp \<and>
             (case input_prevout inp of
                None \<Rightarrow> False
              | Some p \<Rightarrow> prevout_hash p = h \<and> unat (prevout_index p) = i)))"

text \<open>The keys the first pass records for a list of inputs and for a list of transactions.\<close>

definition inputKeys :: "string \<Rightarrow> txinput list \<Rightarrow> string list" where
  "inputKeys address ins =
     concat (map (\<lambda>inp. if spends address inp
                         then (case input_prevout inp of
                                 None \<Rightarrow> []
                               | Some p \<Rightarrow> [utxoKey (prevout_hash p) (unat (prevout_index p))])
                         else []) ins)"

definition spentKeys :: "string \<Rightarrow> tx list \<Rightarrow> string list" where
  "spentKeys address txs =
     concat (map (\<lambda>t. case tx_inputs t of None \<Rightarrow> [] | Some ins \<Rightarrow> inputKeys address ins) txs)"

text \<open>
  The records on which no property read of \<open>analyzeUTXOs\<close> throws: \<open>outputs\<close> and
  \<open>inputs\<close> are present, and every input that passes the address test has a \<open>prevout\<close>.
\<close>

definition inputsReadable :: "string \<Rightarrow> tx \<Rightarrow> bool" where
  "inputsReadable address t =
     (case tx_inputs t of
        None \<Rightarrow> False
      | Some ins \<Rightarrow> (\<forall>inp \<in> set ins. spends address inp \<longrightarrow> input_prevout inp \<noteq> None))"

definition readable :: "string \<Rightarrow> tx \<Rightarrow> bool" where
  "readable address t = (tx_outputs t \<noteq> None \<and> inputsReadable address t)"

text \<open>The values of the outputs that pay the address, in order.\<close>

definition paidValues :: "string \<Rightarrow> txoutput list \<Rightarrow> int option list" where
  "paidValues address outs =
     map output_value (filter (\<lambda>out. output_address out = Some address) outs)"

definition received :: "string \<Rightarrow> tx \<Rightarrow> int option list" where
  "received address t =
     (case tx_outputs t of None \<Rightarrow> [] | Some outs \<Rightarrow> paidValues address outs)"

text \<open>The coin values of the inputs that pass the address test, in order.\<close>

definition coinValues :: "string \<Rightarrow> txinput list \<Rightarrow> int option list" where
  "coinValues address ins =
     concat (map (\<lambda>inp. case input_coin inp of
                          None \<Rightarrow> []
                        | Some c \<Rightarrow> if coin_address c = Some address then [coin_value c] else [])
               ins)"

definition sent :: "string \<Rightarrow> tx \<Rightarrow> int option list" where
  "sent address t =
     (case tx_inputs t of None \<Rightarrow> [] | Some ins \<Rightarrow> coinValues address ins)"

text \<open>
  The JavaScript sum of a list of values that may be absent, added one after the other
  to a starting number; \<open>js_total\<close> starts from \<open>0\<close>.
\<close>

definition js_sum_from :: "jsnum \<Rightarrow> int option list \<Rightarrow> jsnum" where
  "js_sum_from start vs = foldl (\<lambda>s v. js_add s (toNumber v)) start vs"

definition js_total :: "int option list \<Rightarrow> jsnum" where
  "js_total vs = js_sum_from (Num 0) vs"

text \<open>
  The exact counterpart: \<^verbatim>\<open>NaN\<close> when a value is absent, the integer sum otherwise.
  \<open>magnitude\<close> is the sum of the absolute values that are present.
\<close>

definition exact_total :: "int option list \<Rightarrow> jsnum" where
  "exact_total vs = (if None \<in> set vs then NaN else Num (sum_list (map the vs)))"

definition magnitude :: "int option list \<Rightarrow> int" where
  "magnitude vs = sum_list (map (\<lambda>v. case v of None \<Rightarrow> 0 | Some x \<Rightarrow> \<bar>x\<bar>) vs)"

text \<open>
  The values that the transactions of one confirmation state pay to the address, and
  those that their inputs take from it, in the order of the list.
\<close>

definition incomingValues :: "bool \<Rightarrow> string \<Rightarrow> tx list \<Rightarrow> int option list" where
  "incomingValues c address txs =
     concat (map (received address) (filter (\<lambda>t. confirmedTx t = c) txs))"

definition outgoingValues :: "bool \<Rightarrow> string \<Rightarrow> tx list \<Rightarrow> int option list" where
  "outgoingValues c address txs =
     concat (map (sent address) (filter (\<lambda>t. confirmedTx t = c) txs))"

text \<open>The values of the entries of the map that count as available, in the order of the map.\<close>

definition availableValues :: "(string \<times> utxo) list \<Rightarrow> int option list" where
  "availableValues m =
     map (\<lambda>(k, u). utxo_value u) (filter (\<lambda>(k, u). \<not> utxo_spent u \<and> utxo_confirmed u) m)"

text \<open>The writes to the \<open>utxos\<close> map made for the outputs of one transaction, in order.\<close>

definition outEntries ::
  "string \<Rightarrow> string set \<Rightarrow> string option \<Rightarrow> bool \<Rightarrow> nat \<Rightarrow> txoutput list \<Rightarrow> (string \<times> utxo) list" where
  "outEntries address S h c i outs =
     map (\<lambda>(j, out). (utxoKey (js_str h) j,
                       \<lparr>utxo_value = output_value out,
                        utxo_spent = (utxoKey (js_str h) j \<in> S),
                        utxo_confirmed = c\<rparr>))
       (filter (\<lambda>(j, out). output_address out = Some address) (enumerate i outs))"

definition txEntries :: "string \<Rightarrow> string set \<Rightarrow> tx \<Rightarrow> (string \<times> utxo) list" where
  "txEntries address S t =
     (case tx_outputs t of
        None \<Rightarrow> []
      | Some outs \<Rightarrow> outEntries address S (tx_hash t) (confirmedTx t) 0 outs)"

definition allEntries :: "string \<Rightarrow> tx list \<Rightarrow> (string \<times> utxo) list" where
  "allEntries address txs = concat (map (txEntries address (set (spentKeys address txs))) txs)"

definition setAll :: "('k \<times> 'v) list \<Rightarrow> ('k \<times> 'v) list \<Rightarrow> ('k \<times> 'v) list" where
  "setAll es m = fold (\<lambda>(k, v). map_set k v) es m"

text \<open>A transaction with the inputs that have no \<open>coin\<close> removed.\<close>

definition hasCoin :: "txinput \<Rightarrow> bool" where
  "hasCoin inp = (input_coin inp \<noteq> None)"

definition dropCoinless :: "tx \<Rightarrow> tx" where
  "dropCoinless t = t\<lparr>tx_inputs := map_option (filter hasCoin) (tx_inputs t)\<rparr>"

text \<open>
  The selection loop on exact integers, to which the loop on doubles is compared.
\<close>

fun selectLoop_exact ::
  "int unspent list \<Rightarrow> int \<Rightarrow> int unspent list \<Rightarrow> int \<Rightarrow> int unspent list \<times> int" where
  "selectLoop_exact [] req sel s = (sel, s)"
| "selectLoop_exact (u # rest) req sel s =
     (if s + unspent_value u \<ge> req then (sel @ [u], s + unspent_value u)
      else selectLoop_exact rest req (sel @ [u]) (s + unspent_value u))"

text \<open>
  The writes of a list agree when two outputs that pay the address and get the same key
  carry the same value and stand in transactions of the same confirmation state.
\<close>

definition writesAgree :: "string \<Rightarrow> tx list \<Rightarrow> bool" where
  "writesAgree address txs =
     (\<forall>t \<in> set txs. \<forall>t' \<in> set txs.
        js_str (tx_hash t) = js_str (tx_hash t') \<longrightarrow>
        (case (tx_outputs t, tx_outputs t') of
           (Some outs, Some outs') \<Rightarrow>
             (\<forall>(out, out') \<in> set (zip outs outs').
                output_address out = Some address \<and> output_address out' = Some address \<longrightarrow>
                output_value out = output_value out' \<and> confirmedTx t = confirmedTx t')
         | _ \<Rightarrow> True))"

section \<open>Auxiliary facts\<close>

subsection \<open>Decimal text and keys\<close>

lemma of_char_digit: "d < 10 \<Longrightarrow> (of_char (digit_char d) :: nat) = 48 + d"
  by (simp add: digit_char_def)

lemma digit_char_noteq:
  assumes "d < 10" "(of_char c :: nat) < 48 \<or> (of_char c :: nat) > 57"
  shows "digit_char d \<noteq> c"
  using assms of_char_digit[of d] by auto

lemma digit_char_inj:
  assumes "d < 10" "e < 10" "digit_char d = digit_char e"
  shows "d = e"
proof -
  have "48 + d = (of_char (digit_char d) :: nat)"
    using assms(1) by (simp add: of_char_digit)
  also have "\<dots> = of_char (digit_char e)"
    by (simp only: assms(3))
  also have "\<dots> = 48 + e"
    using assms(2) by (simp add: of_char_digit)
  finally show ?thesis by simp
qed

lemma dec_nat_chars: "c \<in> set (dec_nat n) \<Longrightarrow> \<exists>d<10. c = digit_char d"
proof (induction n rule: dec_nat.induct)
  case (1 n)
  show ?case
  proof (cases "n < 10")
    case True
    with 1 show ?thesis by (auto simp: dec_nat.simps[of n])
  next
    case False
    have m: "n mod 10 < 10" by simp
    from 1(2) False have "c \<in> set (dec_nat (n div 10)) \<or> c = digit_char (n mod 10)"
      by (auto simp: dec_nat.simps[of n])
    then show ?thesis using 1(1)[OF False] m by blast
  qed
qed

lemma dec_nat_nonempty: "dec_nat n \<noteq> []"
  by (subst dec_nat.simps) simp

lemma dec_nat_inj: "dec_nat m = dec_nat n \<Longrightarrow> m = n"
proof (induction m arbitrary: n rule: dec_nat.induct)
  case (1 m)
  show ?case
  proof (cases "m < 10")
    case m: True
    show ?thesis
    proof (cases "n < 10")
      case True
      with m 1(2) show ?thesis
        by (auto simp: dec_nat.simps[of m] dec_nat.simps[of n] dest: digit_char_inj)
    next
      case False
      with m 1(2) dec_nat_nonempty[of "n div 10"] show ?thesis
        by (auto simp: dec_nat.simps[of m] dec_nat.simps[of n])
    qed
  next
    case m: False
    show ?thesis
    proof (cases "n < 10")
      case True
      with m 1(2) dec_nat_nonempty[of "m div 10"] show ?thesis
        by (auto simp: dec_nat.simps[of m] dec_nat.simps[of n])
    next
      case False
      with m 1(2) have e: "dec_nat (m div 10) = dec_nat (n div 10)" "digit_char (m mod 10) = digit_char (n mod 10)"
        by (auto simp: dec_nat.simps[of m] dec_nat.simps[of n])
      from 1(1)[OF m e(1)] have "m div 10 = n div 10" .
      moreover from e(2) have "m mod 10 = n mod 10"
        by (intro digit_char_inj) simp_all
      ultimately show ?thesis
        by (metis div_mult_mod_eq)
    qed
  qed
qed

lemma dec_nat_no_sep:
  assumes "(of_char c :: nat) < 48 \<or> (of_char c :: nat) > 57"
  shows "c \<notin> set (dec_nat n)"
  using assms dec_nat_chars[of c n] digit_char_noteq[of _ c] by blast

lemma takeWhile_sep: "c \<notin> set xs \<Longrightarrow> takeWhile (\<lambda>x. x \<noteq> c) (xs @ c # r) = xs"
  by (induction xs) auto

lemma split_at_sep:
  assumes "xs @ c # r = ys @ c # r'" "c \<notin> set xs" "c \<notin> set ys"
  shows "xs = ys \<and> r = r'"
proof -
  have "takeWhile (\<lambda>x. x \<noteq> c) (xs @ c # r) = xs" "takeWhile (\<lambda>x. x \<noteq> c) (ys @ c # r') = ys"
    using assms(2,3) by (simp_all add: takeWhile_sep)
  with assms(1) have "xs = ys" by metis
  with assms(1) show ?thesis by simp
qed

lemma split_at_last_sep:
  assumes "h @ c # d = h' @ c # d'" "c \<notin> set d" "c \<notin> set d'"
  shows "h = h' \<and> d = d'"
proof -
  from assms(1) have "rev d @ c # rev h = rev d' @ c # rev h'"
    by (metis rev.simps(2) rev_append append_assoc append_Cons append_Nil)
  with assms(2,3) have "rev d = rev d' \<and> rev h = rev h'"
    by (intro split_at_sep[of _ c]) simp_all
  then show ?thesis by simp
qed

lemma utxoKey_inj: "utxoKey h i = utxoKey h' i' \<longleftrightarrow> h = h' \<and> i = i'"
proof
  assume a: "utxoKey h i = utxoKey h' i'"
  have "CHR '':'' \<notin> set (dec_nat i)" "CHR '':'' \<notin> set (dec_nat i')"
    by (rule dec_nat_no_sep; simp)+
  with a have "h = h' \<and> dec_nat i = dec_nat i'"
    by (intro split_at_last_sep[of _ "CHR '':''"]) (simp_all add: utxoKey_def)
  then show "h = h' \<and> i = i'" using dec_nat_inj by blast
qed simp

subsection \<open>Doubles\<close>

lemma js_round_exact: "\<bar>x\<bar> \<le> 2 ^ 53 \<Longrightarrow> js_round x = Num x"
  by (simp add: js_round_def)

lemma js_add_exact: "\<bar>a + b\<bar> \<le> 2 ^ 53 \<Longrightarrow> js_add (Num a) (Num b) = Num (a + b)"
  by (simp add: js_round_exact)

lemma js_add_NaN: "js_add NaN x = NaN" "js_add x NaN = NaN"
  by (cases x; simp)+

lemma js_gt_Num: "js_gt (Num a) (Num b) \<longleftrightarrow> b < a"
  by (simp add: js_gt_def)

lemma js_ge_Num: "js_ge (Num a) (Num b) \<longleftrightarrow> b \<le> a"
  by (auto simp: js_ge_def)

lemma js_gt_zero_not_negative:
  "js_gt x (Num 0) \<Longrightarrow> x \<noteq> NaN \<and> \<not> js_lt x (Num 0)"
  by (cases x) (simp_all add: js_gt_def)

lemma bitlength_lower: "0 < x \<Longrightarrow> 2 ^ (bitlength x - 1) \<le> x"
proof (induction x rule: bitlength.induct)
  case (1 x)
  show ?case
  proof (cases "x div 2 \<le> 0")
    case True
    with 1(2) have "x = 1" by simp
    then show ?thesis by (simp add: bitlength.simps[of 1] bitlength.simps[of 0])
  next
    case False
    then have pos: "0 < x div 2" by simp
    with 1(1) 1(2) have ih: "2 ^ (bitlength (x div 2) - 1) \<le> x div 2" by simp
    from pos have "0 < bitlength (x div 2)"
      by (simp add: bitlength.simps[of "x div 2"])
    then have "(2::int) ^ bitlength (x div 2) = 2 * 2 ^ (bitlength (x div 2) - 1)"
      by (cases "bitlength (x div 2)") simp_all
    with ih have "2 ^ bitlength (x div 2) \<le> 2 * (x div 2)" by simp
    also have "\<dots> \<le> x" by simp
    finally show ?thesis using 1(2) by (simp add: bitlength.simps[of x])
  qed
qed

lemma round_quotient_positive:
  assumes "2 ^ 53 < (n::int)"
  shows "0 < n div 2 ^ (bitlength n - 53)"
proof -
  from assms have n: "0 < n" by (simp add: less_trans[of 0 "2 ^ 53" n])
  have "(2::int) ^ (bitlength n - 53) \<le> 2 ^ (bitlength n - 1)"
    by (rule power_increasing) simp_all
  also have "\<dots> \<le> n" using n by (rule bitlength_lower)
  finally have "2 ^ (bitlength n - 53) \<le> n" .
  then show ?thesis
    by (simp add: pos_imp_zdiv_pos_iff)
qed

lemma js_round_sign: "js_gt (js_round x) (Num 0) \<longleftrightarrow> 0 < x"
proof (cases "\<bar>x\<bar> \<le> 2 ^ 53")
  case True
  then show ?thesis by (simp add: js_round_exact js_gt_Num)
next
  case False
  define e where "e = bitlength \<bar>x\<bar> - 53"
  define q where "q = \<bar>x\<bar> div 2 ^ e"
  define m where "m = (if \<bar>x\<bar> mod 2 ^ e > 2 ^ (e - 1) \<or> (\<bar>x\<bar> mod 2 ^ e = 2 ^ (e - 1) \<and> odd q)
                       then q + 1 else q)"
  from False have "0 < q"
    unfolding q_def e_def by (intro round_quotient_positive) simp
  then have "0 < m" by (simp add: m_def)
  then have y: "0 < m * 2 ^ e" by simp
  have "js_round x =
      (let e = bitlength \<bar>x\<bar> - 53;
           q = \<bar>x\<bar> div 2 ^ e;
           r = \<bar>x\<bar> mod 2 ^ e;
           h = 2 ^ (e - 1);
           m = (if r > h \<or> (r = h \<and> odd q) then q + 1 else q);
           y = m * 2 ^ e
       in if y \<ge> 2 ^ 1024 then (if x > 0 then PosInf else NegInf)
          else Num (if x > 0 then y else - y))"
    using False unfolding js_round_def by (rule if_not_P)
  then have r: "js_round x = (if m * 2 ^ e \<ge> 2 ^ 1024 then (if x > 0 then PosInf else NegInf)
            else Num (if x > 0 then m * 2 ^ e else - (m * 2 ^ e)))"
    unfolding Let_def m_def q_def e_def .
  show ?thesis
  proof (cases "m * 2 ^ e \<ge> 2 ^ 1024")
    case True
    then have "js_round x = (if x > 0 then PosInf else NegInf)"
      unfolding r by (rule if_P)
    then show ?thesis by (cases "0 < x") (simp_all add: js_gt_def)
  next
    case False
    then have "js_round x = Num (if x > 0 then m * 2 ^ e else - (m * 2 ^ e))"
      unfolding r by (rule if_not_P)
    with y show ?thesis by (cases "0 < x") (simp_all add: js_gt_def)
  qed
qed

lemma byValueDesc_sign:
  "js_gt (byValueDesc x y) (Num 0) \<longleftrightarrow> unspent_value x < unspent_value y"
  by (simp add: byValueDesc_def js_sub_def js_round_sign)

subsection \<open>Sums of doubles\<close>

lemma js_sum_from_Nil: "js_sum_from s [] = s"
  by (simp add: js_sum_from_def)

lemma js_sum_from_Cons: "js_sum_from s (v # vs) = js_sum_from (js_add s (toNumber v)) vs"
  by (simp add: js_sum_from_def)

lemma js_sum_from_append: "js_sum_from s (vs @ ws) = js_sum_from (js_sum_from s vs) ws"
  by (simp add: js_sum_from_def)

lemma js_sum_from_NaN: "js_sum_from NaN vs = NaN"
  by (induction vs) (simp_all add: js_sum_from_Nil js_sum_from_Cons js_add_NaN)

lemma magnitude_Nil: "magnitude [] = 0"
  by (simp add: magnitude_def)

lemma magnitude_Cons:
  "magnitude (v # vs) = (case v of None \<Rightarrow> 0 | Some x \<Rightarrow> \<bar>x\<bar>) + magnitude vs"
  by (simp add: magnitude_def)

lemma magnitude_append: "magnitude (vs @ ws) = magnitude vs + magnitude ws"
  by (simp add: magnitude_def)

lemma magnitude_nonneg: "0 \<le> magnitude vs"
  by (induction vs) (auto simp: magnitude_Nil magnitude_Cons split: option.splits)

lemma js_sum_from_exact:
  "\<bar>a\<bar> + magnitude vs \<le> 2 ^ 53 \<Longrightarrow>
   js_sum_from (Num a) vs = (if None \<in> set vs then NaN else Num (a + sum_list (map the vs)))"
proof (induction vs arbitrary: a)
  case Nil
  show ?case by (simp add: js_sum_from_Nil)
next
  case (Cons v vs)
  show ?case
  proof (cases v)
    case None
    then show ?thesis by (simp add: js_sum_from_Cons js_add_NaN js_sum_from_NaN)
  next
    case (Some x)
    with Cons.prems have b: "\<bar>a\<bar> + \<bar>x\<bar> + magnitude vs \<le> 2 ^ 53"
      by (simp add: magnitude_Cons)
    with magnitude_nonneg[of vs] have "\<bar>a + x\<bar> \<le> 2 ^ 53" by linarith
    then have s: "js_add (Num a) (Num x) = Num (a + x)" by (rule js_add_exact)
    from b have "\<bar>a + x\<bar> + magnitude vs \<le> 2 ^ 53" by linarith
    from Cons.IH[OF this] show ?thesis
      by (simp add: Some js_sum_from_Cons s add.assoc del: js_add.simps)
  qed
qed

lemma js_total_exact: "magnitude vs \<le> 2 ^ 53 \<Longrightarrow> js_total vs = exact_total vs"
  using js_sum_from_exact[of 0 vs] by (simp add: js_total_def exact_total_def)

lemma exact_total_perm: "mset vs = mset ws \<Longrightarrow> exact_total vs = exact_total ws"
proof -
  assume a: "mset vs = mset ws"
  then have "set vs = set ws" by (rule mset_eq_setD)
  moreover from a have "sum_mset (image_mset the (mset vs)) = sum_mset (image_mset the (mset ws))"
    by simp
  then have "sum_list (map the vs) = sum_list (map the ws)"
    by (simp only: flip: mset_map sum_mset_sum_list)
  ultimately show ?thesis by (simp add: exact_total_def)
qed

lemma magnitude_perm: "mset vs = mset ws \<Longrightarrow> magnitude vs = magnitude ws"
proof -
  let ?f = "\<lambda>v :: int option. case v of None \<Rightarrow> 0 | Some x \<Rightarrow> \<bar>x\<bar>"
  assume "mset vs = mset ws"
  then have "sum_mset (image_mset ?f (mset vs)) = sum_mset (image_mset ?f (mset ws))"
    by simp
  then show ?thesis
    unfolding magnitude_def by (simp only: flip: mset_map sum_mset_sum_list)
qed

subsection \<open>Sorting and the selection loop\<close>

lemma insert_sorted_byValueDesc:
  "insert_sorted byValueDesc x ys = insort_key (\<lambda>u. - unspent_value u) x ys"
  by (induction ys) (auto simp: byValueDesc_sign)

lemma array_sort_byValueDesc:
  "array_sort byValueDesc xs = sort_key (\<lambda>u. - unspent_value u) xs"
proof -
  have "insert_sorted byValueDesc = insort_key (\<lambda>u. - unspent_value u)"
    by (intro ext) (rule insert_sorted_byValueDesc)
  then show ?thesis
    by (simp add: array_sort_def sort_key_def)
qed

lemma mset_sortedUtxos: "mset (sortedUtxos us) = mset (filter unspent_confirmed us)"
  by (simp add: sortedUtxos_def array_sort_byValueDesc)

lemma set_sortedUtxos: "set (sortedUtxos us) = {u \<in> set us. unspent_confirmed u}"
  by (simp add: sortedUtxos_def array_sort_byValueDesc)

lemma descending_sortedUtxos:
  "sorted_wrt (\<lambda>a b. unspent_value a \<ge> unspent_value b) (sortedUtxos us)"
proof -
  have "sorted (map (\<lambda>u. - unspent_value u) (sortedUtxos us))"
    by (simp add: sortedUtxos_def array_sort_byValueDesc)
  then show ?thesis
    by (simp add: sorted_map sorted_wrt_iff_nth_less)
qed

lemma stable_sortedUtxos:
  "filter (\<lambda>u. unspent_value u = v) (sortedUtxos us)
     = filter (\<lambda>u. unspent_value u = v) (filter unspent_confirmed us)"
proof -
  have "filter (\<lambda>u. - unspent_value u = - v) (sortedUtxos us)
     = filter (\<lambda>u. - unspent_value u = - v) (filter unspent_confirmed us)"
    unfolding sortedUtxos_def array_sort_byValueDesc by (rule sort_key_stable)
  then show ?thesis by simp
qed

lemma sum_sortedUtxos:
  "sum_list (map unspent_value (sortedUtxos us))
     = sum_list (map unspent_value (filter unspent_confirmed us))"
proof -
  have "sum_mset (image_mset unspent_value (mset (sortedUtxos us)))
      = sum_mset (image_mset unspent_value (mset (filter unspent_confirmed us)))"
    by (simp only: mset_sortedUtxos)
  then show ?thesis
    by (simp only: flip: mset_map sum_mset_sum_list)
qed

lemma selectLoop_exact_prefix:
  "\<exists>n \<le> length xs.
     selectLoop_exact xs req sel s = (sel @ take n xs, s + sum_list (map unspent_value (take n xs)))
     \<and> (\<forall>m. 0 < m \<and> m < n \<longrightarrow> s + sum_list (map unspent_value (take m xs)) < req)
     \<and> ((0 < n \<and> req \<le> s + sum_list (map unspent_value (take n xs)))
        \<or> (n = length xs
            \<and> (\<forall>m. 0 < m \<and> m \<le> length xs \<longrightarrow> s + sum_list (map unspent_value (take m xs)) < req)))"
proof (induction xs arbitrary: sel s)
  case Nil
  show ?case by simp
next
  case (Cons u rest)
  show ?case
  proof (cases "req \<le> s + unspent_value u")
    case True
    then show ?thesis
      by (intro exI[of _ 1]) simp
  next
    case False
    from Cons.IH[of "sel @ [u]" "s + unspent_value u"]
    obtain n where n: "n \<le> length rest"
      "selectLoop_exact rest req (sel @ [u]) (s + unspent_value u)
         = ((sel @ [u]) @ take n rest, (s + unspent_value u) + sum_list (map unspent_value (take n rest)))"
      "\<forall>m. 0 < m \<and> m < n \<longrightarrow> (s + unspent_value u) + sum_list (map unspent_value (take m rest)) < req"
      "(0 < n \<and> req \<le> (s + unspent_value u) + sum_list (map unspent_value (take n rest)))
        \<or> (n = length rest
            \<and> (\<forall>m. 0 < m \<and> m \<le> length rest \<longrightarrow> (s + unspent_value u) + sum_list (map unspent_value (take m rest)) < req))"
      by blast
    have pre: "s + sum_list (map unspent_value (take m (u # rest))) < req"
      if "0 < m" and r: "m - 1 = 0 \<or> (s + unspent_value u) + sum_list (map unspent_value (take (m - 1) rest)) < req"
      for m
    proof -
      from \<open>0 < m\<close> obtain k where k: "m = Suc k" by (cases m) auto
      with r False show ?thesis by (auto simp: add.assoc)
    qed
    show ?thesis
    proof (intro exI[of _ "Suc n"] conjI allI impI)
      show "Suc n \<le> length (u # rest)" using n(1) by simp
      show "selectLoop_exact (u # rest) req sel s
          = (sel @ take (Suc n) (u # rest), s + sum_list (map unspent_value (take (Suc n) (u # rest))))"
        using False n(2) by (simp add: Let_def add.assoc)
      show "s + sum_list (map unspent_value (take m (u # rest))) < req" if "0 < m \<and> m < Suc n" for m
      proof (rule pre)
        show "0 < m" using that by simp
        show "m - 1 = 0 \<or> (s + unspent_value u) + sum_list (map unspent_value (take (m - 1) rest)) < req"
          using that n(3) by (cases "m - 1 = 0") auto
      qed
      show "(0 < Suc n \<and> req \<le> s + sum_list (map unspent_value (take (Suc n) (u # rest))))
        \<or> (Suc n = length (u # rest)
            \<and> (\<forall>m. 0 < m \<and> m \<le> length (u # rest) \<longrightarrow> s + sum_list (map unspent_value (take m (u # rest))) < req))"
        using n(4)
      proof
        assume "0 < n \<and> req \<le> (s + unspent_value u) + sum_list (map unspent_value (take n rest))"
        then show ?thesis by (simp add: add.assoc)
      next
        assume a: "n = length rest
            \<and> (\<forall>m. 0 < m \<and> m \<le> length rest \<longrightarrow> (s + unspent_value u) + sum_list (map unspent_value (take m rest)) < req)"
        have "s + sum_list (map unspent_value (take m (u # rest))) < req"
          if "0 < m \<and> m \<le> length (u # rest)" for m
        proof (rule pre)
          show "0 < m" using that by simp
          show "m - 1 = 0 \<or> (s + unspent_value u) + sum_list (map unspent_value (take (m - 1) rest)) < req"
            using that a by (cases "m - 1 = 0") auto
        qed
        with a show ?thesis by simp
      qed
    qed
  qed
qed

lemma prefix_sum_le:
  fixes xs :: "int unspent list"
  assumes "\<forall>u \<in> set xs. 0 \<le> unspent_value u"
  shows "sum_list (map unspent_value (take m xs)) \<le> sum_list (map unspent_value xs)"
proof -
  have "sum_list (map unspent_value xs)
      = sum_list (map unspent_value (take m xs)) + sum_list (map unspent_value (drop m xs))"
    by (metis append_take_drop_id map_append sum_list_append)
  moreover have "0 \<le> sum_list (map unspent_value (drop m xs))"
  proof (rule sum_list_nonneg)
    fix v assume "v \<in> set (map unspent_value (drop m xs))"
    then obtain u where "u \<in> set (drop m xs)" "v = unspent_value u" by auto
    with assms show "0 \<le> v" by (auto dest: in_set_dropD)
  qed
  ultimately show ?thesis by simp
qed

lemma selectLoop_exact_eq:
  fixes xs :: "int unspent list"
  assumes "\<bar>s\<bar> + sum_list (map (\<lambda>u. \<bar>unspent_value u\<bar>) xs) \<le> 2 ^ 53"
  shows "selectLoop xs (Num req) sel (Num s)
           = (case selectLoop_exact xs req sel s of (sel', s') \<Rightarrow> (sel', Num s'))"
  using assms
proof (induction xs arbitrary: sel s)
  case Nil
  show ?case by simp
next
  case (Cons u rest)
  let ?v = "unspent_value u"
  from Cons.prems have b: "\<bar>s\<bar> + \<bar>?v\<bar> + sum_list (map (\<lambda>u. \<bar>unspent_value u\<bar>) rest) \<le> 2 ^ 53"
    by simp
  have n: "0 \<le> sum_list (map (\<lambda>u. \<bar>unspent_value u\<bar>) rest)"
    by (rule sum_list_nonneg) auto
  from b n have "\<bar>s + ?v\<bar> \<le> 2 ^ 53" by linarith
  then have add: "js_add (Num s) (Num ?v) = Num (s + ?v)" by (rule js_add_exact)
  from b have "\<bar>s + ?v\<bar> + sum_list (map (\<lambda>u. \<bar>unspent_value u\<bar>) rest) \<le> 2 ^ 53"
    by linarith
  from Cons.IH[OF this] show ?case
    by (simp add: add Let_def js_ge_Num del: js_add.simps)
qed

subsection \<open>The map of unspent outputs\<close>

lemma map_of_map_set: "map_of (map_set k v m) = (map_of m)(k \<mapsto> v)"
  by (induction m) (auto simp: fun_eq_iff)

lemma keys_map_set: "fst ` set (map_set k v m) = insert k (fst ` set m)"
proof (induction m)
  case Nil
  show ?case by simp
next
  case (Cons p m)
  obtain k' v' where p: "p = (k', v')" by (cases p)
  show ?case
  proof (cases "k' = k")
    case True
    then show ?thesis by (simp add: p)
  next
    case False
    then show ?thesis using Cons.IH by (simp add: p insert_commute)
  qed
qed

lemma distinct_map_set: "distinct (map fst m) \<Longrightarrow> distinct (map fst (map_set k v m))"
proof (induction m)
  case Nil
  show ?case by simp
next
  case (Cons p m)
  obtain k' v' where p: "p = (k', v')" by (cases p)
  from Cons have "distinct (map fst (map_set k v m))" by simp
  moreover from Cons.prems p have "k' \<notin> fst ` set m" by simp
  ultimately show ?case
    using Cons.prems p keys_map_set[of k v m] by auto
qed

lemma setAll_Nil: "setAll [] m = m"
  by (simp add: setAll_def)

lemma setAll_Cons: "setAll ((k, v) # es) m = setAll es (map_set k v m)"
  by (simp add: setAll_def)

lemma setAll_append: "setAll (es @ es') m = setAll es' (setAll es m)"
  by (simp add: setAll_def)

lemma map_of_setAll: "map_of (setAll es m) = map_of m ++ map_of (rev es)"
proof (induction es arbitrary: m)
  case Nil
  show ?case by (simp add: setAll_Nil)
next
  case (Cons e es)
  obtain k v where e: "e = (k, v)" by (cases e)
  have "map_of (setAll (e # es) m) = (map_of m)(k \<mapsto> v) ++ map_of (rev es)"
    by (simp only: e setAll_Cons Cons.IH map_of_map_set)
  also have "\<dots> = map_of m ++ map_of (rev (e # es))"
    by (auto simp: e fun_eq_iff map_add_def split: option.splits)
  finally show ?case .
qed

lemma distinct_setAll: "distinct (map fst m) \<Longrightarrow> distinct (map fst (setAll es m))"
proof (induction es arbitrary: m)
  case Nil
  then show ?case by (simp add: setAll_Nil)
next
  case (Cons e es)
  obtain k v where e: "e = (k, v)" by (cases e)
  from Cons.prems have "distinct (map fst (map_set k v m))" by (rule distinct_map_set)
  then show ?case unfolding e setAll_Cons by (rule Cons.IH)
qed

lemma keys_setAll: "fst ` set (setAll es m) = fst ` set es \<union> fst ` set m"
proof (induction es arbitrary: m)
  case Nil
  show ?case by (simp add: setAll_Nil)
next
  case (Cons e es)
  obtain k v where e: "e = (k, v)" by (cases e)
  show ?case unfolding e setAll_Cons Cons.IH keys_map_set by auto
qed

text \<open>With keys that are written once, the map holds exactly the writes.\<close>

lemma map_of_setAll_distinct:
  assumes "distinct (map fst es)"
  shows "map_of (setAll es []) = map_of es"
proof -
  have "map_of (rev es) = map_of es"
    using assms by (intro map_of_inject_set[THEN iffD2]) (simp_all add: rev_map[symmetric] distinct_rev)
  then show ?thesis by (simp add: map_of_setAll)
qed

lemma set_setAll_distinct:
  assumes "distinct (map fst es)"
  shows "set (setAll es []) = set es"
proof -
  have "distinct (map fst (setAll es []))" by (rule distinct_setAll) simp
  with assms map_of_setAll_distinct[OF assms] show ?thesis
    by (simp add: map_of_inject_set)
qed

subsection \<open>The two passes\<close>

lemma markSpent_eq:
  "markSpent a ins S =
     (if \<forall>inp \<in> set ins. spends a inp \<longrightarrow> input_prevout inp \<noteq> None
      then Inr (S \<union> set (inputKeys a ins)) else Inl TypeError)"
proof (induction ins arbitrary: S)
  case Nil
  show ?case by (simp add: inputKeys_def)
next
  case (Cons inp ins)
  show ?case
  proof (cases "spends a inp")
    case False
    then show ?thesis by (simp add: Cons.IH inputKeys_def)
  next
    case True
    show ?thesis
    proof (cases "input_prevout inp")
      case None
      with True show ?thesis by simp
    next
      case (Some p)
      with True show ?thesis by (simp add: Cons.IH inputKeys_def)
    qed
  qed
qed

lemma firstPass_eq:
  "firstPass a txs S =
     (if \<forall>t \<in> set txs. inputsReadable a t
      then Inr (S \<union> set (spentKeys a txs)) else Inl TypeError)"
proof (induction txs arbitrary: S)
  case Nil
  show ?case by (simp add: spentKeys_def)
next
  case (Cons t txs)
  show ?case
  proof (cases "tx_inputs t")
    case None
    then show ?thesis by (simp add: inputsReadable_def)
  next
    case (Some ins)
    show ?thesis
    proof (cases "\<forall>inp \<in> set ins. spends a inp \<longrightarrow> input_prevout inp \<noteq> None")
      case True
      with Some show ?thesis
        by (simp add: markSpent_eq Cons.IH inputsReadable_def spentKeys_def Un_assoc)
    next
      case False
      then have "markSpent a ins S = Inl TypeError"
        by (simp only: markSpent_eq if_False)
      moreover from False Some have "\<not> inputsReadable a t"
        by (simp add: inputsReadable_def)
      ultimately show ?thesis using Some by simp
    qed
  qed
qed

lemma processOutputs_eq:
  "processOutputs a S h c i outs st =
     st\<lparr>st_utxos := setAll (outEntries a S h c i outs) (st_utxos st),
        st_incoming := js_sum_from (st_incoming st) (if c then paidValues a outs else []),
        st_incomingPending :=
          js_sum_from (st_incomingPending st) (if c then [] else paidValues a outs)\<rparr>"
proof (induction outs arbitrary: i st)
  case Nil
  show ?case
    by (simp add: outEntries_def paidValues_def setAll_Nil js_sum_from_Nil)
next
  case (Cons out outs)
  show ?case
  proof (cases "output_address out = Some a")
    case False
    then show ?thesis
      by (simp add: Cons.IH outEntries_def paidValues_def)
  next
    case True
    then show ?thesis
      by (simp add: Cons.IH outEntries_def paidValues_def Let_def setAll_Cons
           js_sum_from_Cons js_sum_from_Nil)
  qed
qed

lemma processInputs_eq:
  "processInputs a c ins st =
     st\<lparr>st_outgoing := js_sum_from (st_outgoing st) (if c then coinValues a ins else []),
        st_outgoingPending :=
          js_sum_from (st_outgoingPending st) (if c then [] else coinValues a ins)\<rparr>"
proof (induction ins arbitrary: st)
  case Nil
  show ?case by (simp add: coinValues_def js_sum_from_Nil)
next
  case (Cons inp ins)
  show ?case
  proof (cases "input_coin inp")
    case None
    then show ?thesis by (simp add: Cons.IH coinValues_def)
  next
    case (Some cn)
    then have cv: "coinValues a (inp # ins)
        = (if coin_address cn = Some a then [coin_value cn] else []) @ coinValues a ins"
      by (simp add: coinValues_def)
    show ?thesis
      by (simp add: Cons.IH cv Some js_sum_from_Cons js_sum_from_Nil)
  qed
qed

lemma incomingValues_Nil: "incomingValues c a [] = []"
  by (simp add: incomingValues_def)

lemma incomingValues_Cons:
  "incomingValues c a (t # txs)
     = (if confirmedTx t = c then received a t else []) @ incomingValues c a txs"
  by (simp add: incomingValues_def)

lemma outgoingValues_Nil: "outgoingValues c a [] = []"
  by (simp add: outgoingValues_def)

lemma outgoingValues_Cons:
  "outgoingValues c a (t # txs)
     = (if confirmedTx t = c then sent a t else []) @ outgoingValues c a txs"
  by (simp add: outgoingValues_def)

lemma secondPass_eq:
  "secondPass a S txs st =
     (if \<forall>t \<in> set txs. tx_outputs t \<noteq> None \<and> tx_inputs t \<noteq> None
      then Inr (st\<lparr>st_utxos := setAll (concat (map (txEntries a S) txs)) (st_utxos st),
                  st_incoming := js_sum_from (st_incoming st) (incomingValues True a txs),
                  st_outgoing := js_sum_from (st_outgoing st) (outgoingValues True a txs),
                  st_incomingPending :=
                    js_sum_from (st_incomingPending st) (incomingValues False a txs),
                  st_outgoingPending :=
                    js_sum_from (st_outgoingPending st) (outgoingValues False a txs)\<rparr>)
      else Inl TypeError)"
proof (induction txs arbitrary: st)
  case Nil
  show ?case
    by (simp add: setAll_Nil incomingValues_Nil outgoingValues_Nil js_sum_from_Nil)
next
  case (Cons t txs)
  show ?case
  proof (cases "tx_outputs t")
    case None
    then show ?thesis by simp
  next
    case outs: (Some outs)
    show ?thesis
    proof (cases "tx_inputs t")
      case None
      with outs show ?thesis by (simp add: Let_def)
    next
      case ins: (Some ins)
      have e: "txEntries a S t = outEntries a S (tx_hash t) (confirmedTx t) 0 outs"
        by (simp add: txEntries_def outs)
      have r: "received a t = paidValues a outs" "sent a t = coinValues a ins"
        by (simp_all add: received_def sent_def outs ins)
      have step: "secondPass a S (t # txs) st
          = secondPass a S txs
              (processInputs a (confirmedTx t) ins
                 (processOutputs a S (tx_hash t) (confirmedTx t) 0 outs st))"
        by (simp add: outs ins Let_def confirmedTx_def)
      show ?thesis
        unfolding step Cons.IH processInputs_eq processOutputs_eq
        by (simp add: outs ins e r setAll_append incomingValues_Cons outgoingValues_Cons
            js_sum_from_append js_sum_from_Nil)
    qed
  qed
qed

lemma analyzeUTXOs_state_eq:
  "analyzeUTXOs_state a txs =
     (if \<forall>t \<in> set txs. readable a t
      then Inr \<lparr>st_utxos = setAll (allEntries a txs) [],
                st_incoming = js_total (incomingValues True a txs),
                st_outgoing = js_total (outgoingValues True a txs),
                st_incomingPending = js_total (incomingValues False a txs),
                st_outgoingPending = js_total (outgoingValues False a txs)\<rparr>
      else Inl TypeError)"
proof (cases "\<forall>t \<in> set txs. inputsReadable a t")
  case False
  then have n: "\<not> (\<forall>t \<in> set txs. readable a t)"
    by (auto simp: readable_def)
  from False have "firstPass a txs {} = Inl TypeError"
    unfolding firstPass_eq by (rule if_not_P)
  then have "analyzeUTXOs_state a txs = Inl TypeError"
    by (simp add: analyzeUTXOs_state_def)
  with n show ?thesis by simp
next
  case True
  then have i: "\<forall>t \<in> set txs. tx_inputs t \<noteq> None"
    by (auto simp: inputsReadable_def split: option.splits)
  with True have c: "(\<forall>t \<in> set txs. tx_outputs t \<noteq> None \<and> tx_inputs t \<noteq> None)
      \<longleftrightarrow> (\<forall>t \<in> set txs. readable a t)"
    by (auto simp: readable_def)
  from True have "firstPass a txs {} = Inr ({} \<union> set (spentKeys a txs))"
    unfolding firstPass_eq by (rule if_P)
  then have "analyzeUTXOs_state a txs = secondPass a (set (spentKeys a txs)) txs initial_state"
    by (simp add: analyzeUTXOs_state_def)
  then show ?thesis
    unfolding secondPass_eq c
    by (simp add: initial_state_def allEntries_def js_total_def)
qed

subsection \<open>The returned object\<close>

lemma analyzeUTXOs_eq:
  "analyzeUTXOs a txs =
     (if \<forall>t \<in> set txs. readable a t
      then Inr \<lparr>incoming = js_total (incomingValues True a txs),
                outgoing = js_total (outgoingValues True a txs),
                incomingPending = js_total (incomingValues False a txs),
                outgoingPending = js_total (outgoingValues False a txs),
                availableBalance = sumAvailable (setAll (allEntries a txs) []) (Num 0),
                unspentUTXOs =
                  map (\<lambda>(key, u). \<lparr>unspent_utxo = key, unspent_value = utxo_value u,
                                    unspent_confirmed = utxo_confirmed u\<rparr>)
                    (filter (\<lambda>(key, u). \<not> utxo_spent u) (setAll (allEntries a txs) []))\<rparr>
      else Inl TypeError)"
  by (simp add: analyzeUTXOs_def analyzeUTXOs_state_eq)

lemma analyzeUTXOs_Inr_readable:
  "analyzeUTXOs a txs = Inr r \<Longrightarrow> \<forall>t \<in> set txs. readable a t"
  by (simp add: analyzeUTXOs_eq split: if_splits)

lemma analyzeUTXOs_state_Inr_readable:
  "analyzeUTXOs_state a txs = Inr st \<Longrightarrow> \<forall>t \<in> set txs. readable a t"
  by (simp add: analyzeUTXOs_state_eq split: if_splits)

subsection \<open>Inputs without a coin\<close>

lemma spends_hasCoin: "spends a inp \<Longrightarrow> hasCoin inp"
  by (cases "input_coin inp") (simp_all add: spends_def hasCoin_def)

lemma inputKeys_filter:
  "inputKeys a (filter hasCoin ins) = inputKeys a ins"
  by (induction ins) (auto simp: inputKeys_def dest: spends_hasCoin)

lemma coinValues_filter:
  "coinValues a (filter hasCoin ins) = coinValues a ins"
  by (induction ins) (auto simp: coinValues_def hasCoin_def)

lemma dropCoinless_fields:
  "tx_hash (dropCoinless t) = tx_hash t"
  "tx_outputs (dropCoinless t) = tx_outputs t"
  "confirmedTx (dropCoinless t) = confirmedTx t"
  "tx_inputs (dropCoinless t)
     = map_option (filter hasCoin) (tx_inputs t)"
  by (simp_all add: dropCoinless_def confirmedTx_def)

lemma readable_dropCoinless: "readable a (dropCoinless t) = readable a t"
  by (cases "tx_inputs t")
    (auto simp: readable_def inputsReadable_def dropCoinless_fields dest: spends_hasCoin)

lemma received_dropCoinless: "received a (dropCoinless t) = received a t"
  by (simp add: received_def dropCoinless_fields)

lemma sent_dropCoinless: "sent a (dropCoinless t) = sent a t"
  by (cases "tx_inputs t") (simp_all add: sent_def dropCoinless_fields coinValues_filter)

lemma txEntries_dropCoinless: "txEntries a S (dropCoinless t) = txEntries a S t"
  by (cases "tx_outputs t") (simp_all add: txEntries_def dropCoinless_fields)

lemma spentKeys_dropCoinless: "spentKeys a (map dropCoinless txs) = spentKeys a txs"
proof -
  have "(case tx_inputs (dropCoinless t) of None \<Rightarrow> [] | Some ins \<Rightarrow> inputKeys a ins)
      = (case tx_inputs t of None \<Rightarrow> [] | Some ins \<Rightarrow> inputKeys a ins)" for t
    by (cases "tx_inputs t") (simp_all add: dropCoinless_fields inputKeys_filter)
  then show ?thesis by (simp add: spentKeys_def comp_def)
qed

lemma incomingValues_dropCoinless:
  "incomingValues c a (map dropCoinless txs) = incomingValues c a txs"
  by (induction txs)
    (simp_all add: incomingValues_Nil incomingValues_Cons received_dropCoinless
       dropCoinless_fields)

lemma outgoingValues_dropCoinless:
  "outgoingValues c a (map dropCoinless txs) = outgoingValues c a txs"
  by (induction txs)
    (simp_all add: outgoingValues_Nil outgoingValues_Cons sent_dropCoinless
       dropCoinless_fields)

lemma allEntries_dropCoinless: "allEntries a (map dropCoinless txs) = allEntries a txs"
  by (simp add: allEntries_def spentKeys_dropCoinless comp_def txEntries_dropCoinless)

lemma analyzeUTXOs_dropCoinless: "analyzeUTXOs a (map dropCoinless txs) = analyzeUTXOs a txs"
  by (simp add: analyzeUTXOs_eq readable_dropCoinless incomingValues_dropCoinless
      outgoingValues_dropCoinless allEntries_dropCoinless)

lemma analyzeUTXOs_state_dropCoinless:
  "analyzeUTXOs_state a (map dropCoinless txs) = analyzeUTXOs_state a txs"
  by (simp add: analyzeUTXOs_state_eq readable_dropCoinless incomingValues_dropCoinless
      outgoingValues_dropCoinless allEntries_dropCoinless)

lemma in_inputKeys:
  "k \<in> set (inputKeys a ins) \<longleftrightarrow>
     (\<exists>inp \<in> set ins. spends a inp
        \<and> (\<exists>p. input_prevout inp = Some p \<and> k = utxoKey (prevout_hash p) (unat (prevout_index p))))"
proof -
  have "k \<in> set (inputKeys a ins) \<longleftrightarrow>
      (\<exists>inp \<in> set ins \<inter> Collect (spends a).
         \<exists>p. Some p = input_prevout inp \<and> k = utxoKey (prevout_hash p) (unat (prevout_index p)))"
    by (simp add: inputKeys_def)
  also have "\<dots> \<longleftrightarrow>
      (\<exists>inp \<in> set ins. spends a inp
        \<and> (\<exists>p. input_prevout inp = Some p \<and> k = utxoKey (prevout_hash p) (unat (prevout_index p))))"
    by (metis Int_iff mem_Collect_eq)
  finally show ?thesis .
qed

lemma in_spentKeys:
  "k \<in> set (spentKeys a txs) \<longleftrightarrow>
     (\<exists>t \<in> set txs. \<exists>ins. tx_inputs t = Some ins \<and> k \<in> set (inputKeys a ins))"
proof (induction txs)
  case Nil
  show ?case by (simp add: spentKeys_def)
next
  case (Cons t txs)
  have "spentKeys a (t # txs)
      = (case tx_inputs t of None \<Rightarrow> [] | Some ins \<Rightarrow> inputKeys a ins) @ spentKeys a txs"
    by (simp add: spentKeys_def)
  then show ?case
    using Cons.IH by (auto split: option.splits)
qed

lemma spentKeys_consumes:
  "utxoKey h i \<in> set (spentKeys a txs) \<longleftrightarrow> (\<exists>t \<in> set txs. consumes a h i t)"
proof -
  have "utxoKey h i \<in> set (inputKeys a ins) \<longleftrightarrow>
      (\<exists>inp \<in> set ins. spends a inp
         \<and> (case input_prevout inp of
               None \<Rightarrow> False
             | Some p \<Rightarrow> prevout_hash p = h \<and> unat (prevout_index p) = i))" for ins
    unfolding in_inputKeys utxoKey_inj
    by (auto split: option.splits)
  then have "(\<exists>ins. tx_inputs t = Some ins \<and> utxoKey h i \<in> set (inputKeys a ins))
      \<longleftrightarrow> consumes a h i t" for t
    by (cases "tx_inputs t") (simp_all add: consumes_def)
  then show ?thesis
    unfolding in_spentKeys by simp
qed

lemma not_readable_iff:
  "\<not> readable a t \<longleftrightarrow>
     tx_inputs t = None \<or> tx_outputs t = None
     \<or> (\<exists>ins inp. tx_inputs t = Some ins \<and> inp \<in> set ins \<and> spends a inp
           \<and> input_prevout inp = None)"
  by (cases "tx_inputs t") (auto simp: readable_def inputsReadable_def)

subsection \<open>The entries written to the map\<close>

lemma in_outEntries:
  "(k, e) \<in> set (outEntries a S h c i outs) \<longleftrightarrow>
     (\<exists>j < length outs. output_address (outs ! j) = Some a
        \<and> k = utxoKey (js_str h) (i + j)
        \<and> e = \<lparr>utxo_value = output_value (outs ! j), utxo_spent = (k \<in> S),
                utxo_confirmed = c\<rparr>)"
proof
  assume "(k, e) \<in> set (outEntries a S h c i outs)"
  then obtain n out where n: "(n, out) \<in> set (enumerate i outs)"
    "output_address out = Some a" "k = utxoKey (js_str h) n"
    "e = \<lparr>utxo_value = output_value out, utxo_spent = (k \<in> S), utxo_confirmed = c\<rparr>"
    by (auto simp: outEntries_def)
  from n(1) have "i \<le> n" "n - i < length outs" "outs ! (n - i) = out"
    by (auto simp: in_set_enumerate_eq)
  with n(2-4) show "\<exists>j < length outs. output_address (outs ! j) = Some a
        \<and> k = utxoKey (js_str h) (i + j)
        \<and> e = \<lparr>utxo_value = output_value (outs ! j), utxo_spent = (k \<in> S),
                utxo_confirmed = c\<rparr>"
    by (intro exI[of _ "n - i"]) simp
next
  assume "\<exists>j < length outs. output_address (outs ! j) = Some a
        \<and> k = utxoKey (js_str h) (i + j)
        \<and> e = \<lparr>utxo_value = output_value (outs ! j), utxo_spent = (k \<in> S),
                utxo_confirmed = c\<rparr>"
  then obtain j where j: "j < length outs" "output_address (outs ! j) = Some a"
    "k = utxoKey (js_str h) (i + j)"
    "e = \<lparr>utxo_value = output_value (outs ! j), utxo_spent = (k \<in> S), utxo_confirmed = c\<rparr>"
    by blast
  from j(1) have "(i + j, outs ! j) \<in> set (enumerate i outs)"
    by (simp add: in_set_enumerate_eq)
  with j(2-4) show "(k, e) \<in> set (outEntries a S h c i outs)"
    by (force simp: outEntries_def)
qed

lemma in_allEntries:
  "(k, e) \<in> set (allEntries a txs) \<longleftrightarrow>
     (\<exists>t \<in> set txs. \<exists>outs. tx_outputs t = Some outs
        \<and> (\<exists>j < length outs. output_address (outs ! j) = Some a
              \<and> k = utxoKey (js_str (tx_hash t)) j
              \<and> e = \<lparr>utxo_value = output_value (outs ! j),
                      utxo_spent = (k \<in> set (spentKeys a txs)),
                      utxo_confirmed = confirmedTx t\<rparr>))"
proof -
  have "(k, e) \<in> set (txEntries a S t) \<longleftrightarrow>
      (\<exists>outs. tx_outputs t = Some outs
        \<and> (\<exists>j < length outs. output_address (outs ! j) = Some a
              \<and> k = utxoKey (js_str (tx_hash t)) j
              \<and> e = \<lparr>utxo_value = output_value (outs ! j), utxo_spent = (k \<in> S),
                      utxo_confirmed = confirmedTx t\<rparr>))" for S t
    by (cases "tx_outputs t") (simp_all add: txEntries_def in_outEntries)
  then show ?thesis
    by (simp add: allEntries_def)
qed

lemma set_map_set: "set (map_set k v m) \<subseteq> insert (k, v) (set m)"
  by (induction m) (auto split: if_splits)

lemma set_setAll: "set (setAll es m) \<subseteq> set es \<union> set m"
proof (induction es arbitrary: m)
  case Nil
  show ?case by (simp add: setAll_Nil)
next
  case (Cons e es)
  obtain k v where e: "e = (k, v)" by (cases e)
  have "set (setAll (e # es) m) \<subseteq> set es \<union> set (map_set k v m)"
    unfolding e setAll_Cons by (rule Cons.IH)
  with set_map_set[of k v m] show ?case
    unfolding e by auto
qed

lemma state_utxos:
  "analyzeUTXOs_state a txs = Inr st \<Longrightarrow> st_utxos st = setAll (allEntries a txs) []"
  by (auto simp: analyzeUTXOs_state_eq split: if_splits)

lemma state_utxos_distinct:
  "analyzeUTXOs_state a txs = Inr st \<Longrightarrow> distinct (map fst (st_utxos st))"
  by (simp add: state_utxos distinct_setAll)

lemma state_utxos_written:
  "analyzeUTXOs_state a txs = Inr st \<Longrightarrow> (k, e) \<in> set (st_utxos st)
     \<Longrightarrow> (k, e) \<in> set (allEntries a txs)"
  using set_setAll[of "allEntries a txs" "[]"] by (auto simp: state_utxos)

lemma state_utxos_keys:
  "analyzeUTXOs_state a txs = Inr st
     \<Longrightarrow> fst ` set (st_utxos st) = fst ` set (allEntries a txs)"
  by (simp add: state_utxos keys_setAll)

lemma at_most_one_per_key:
  "distinct (map fst m) \<Longrightarrow> length (filter (\<lambda>(k, u). k = x) m) \<le> 1"
proof (induction m)
  case Nil
  show ?case by simp
next
  case (Cons p m)
  obtain k u where p: "p = (k, u)" by (cases p)
  show ?case
  proof (cases "k = x")
    case True
    with Cons.prems p have "x \<notin> fst ` set m" by simp
    then have "filter (\<lambda>(k, u). k = x) m = []"
      by (force simp: filter_empty_conv)
    with True p show ?thesis by simp
  next
    case False
    with Cons p show ?thesis by simp
  qed
qed

lemma unspent_keys:
  "map unspent_utxo
     (map (\<lambda>(key, u). \<lparr>unspent_utxo = key, unspent_value = utxo_value u,
                       unspent_confirmed = utxo_confirmed u\<rparr>) m) = map fst m"
  by (induction m) auto

lemma analyzeUTXOs_of_state:
  "analyzeUTXOs_state a txs = Inr st \<Longrightarrow>
   analyzeUTXOs a txs =
     Inr \<lparr>incoming = st_incoming st, outgoing = st_outgoing st,
          incomingPending = st_incomingPending st, outgoingPending = st_outgoingPending st,
          availableBalance = sumAvailable (st_utxos st) (Num 0),
          unspentUTXOs =
            map (\<lambda>(key, u). \<lparr>unspent_utxo = key, unspent_value = utxo_value u,
                              unspent_confirmed = utxo_confirmed u\<rparr>)
              (filter (\<lambda>(key, u). \<not> utxo_spent u) (st_utxos st))\<rparr>"
  by (simp add: analyzeUTXOs_def)

lemma analyzeUTXOs_state_exists:
  "analyzeUTXOs a txs = Inr r \<Longrightarrow> \<exists>st. analyzeUTXOs_state a txs = Inr st"
  by (cases "analyzeUTXOs_state a txs") (simp_all add: analyzeUTXOs_def)

lemma abs_sum_sortedUtxos:
  "sum_list (map (\<lambda>u. \<bar>unspent_value u\<bar>) (sortedUtxos us))
     = sum_list (map (\<lambda>u. \<bar>unspent_value u\<bar>) (filter unspent_confirmed us))"
proof -
  have "sum_mset (image_mset (\<lambda>u. \<bar>unspent_value u\<bar>) (mset (sortedUtxos us)))
      = sum_mset (image_mset (\<lambda>u. \<bar>unspent_value u\<bar>) (mset (filter unspent_confirmed us)))"
    by (simp only: mset_sortedUtxos)
  then show ?thesis
    by (simp only: flip: mset_map sum_mset_sum_list)
qed

subsection \<open>The available balance\<close>

lemma sumAvailable_eq: "sumAvailable m acc = js_sum_from acc (availableValues m)"
proof (induction m arbitrary: acc)
  case Nil
  show ?case by (simp add: availableValues_def js_sum_from_Nil)
next
  case (Cons p m)
  obtain k u where p: "p = (k, u)" by (cases p)
  have "availableValues (p # m)
      = (if \<not> utxo_spent u \<and> utxo_confirmed u then [utxo_value u] else []) @ availableValues m"
    by (simp add: p availableValues_def)
  then show ?case
    unfolding p by (simp add: Cons.IH js_sum_from_Cons js_sum_from_Nil)
qed

lemma distinct_keys_distinct: "distinct (map fst m) \<Longrightarrow> distinct m"
  by (simp add: distinct_map)

lemma availableValues_unspent:
  "availableValues m
     = map unspent_value
         (filter unspent_confirmed
            (map (\<lambda>(key, u). \<lparr>unspent_utxo = key, unspent_value = utxo_value u,
                              unspent_confirmed = utxo_confirmed u\<rparr>)
               (filter (\<lambda>(key, u). \<not> utxo_spent u) m)))"
  by (induction m) (auto simp: availableValues_def)

lemma availableValues_None:
  "None \<in> set (availableValues m) \<longleftrightarrow>
     (\<exists>(k, u) \<in> {(k, u) \<in> set m. \<not> utxo_spent u \<and> utxo_confirmed u}. utxo_value u = None)"
  by (auto simp: availableValues_def image_iff) metis+

lemma availableValues_sum:
  assumes "distinct (map fst m)"
  shows "sum_list (map the (availableValues m))
     = (\<Sum>(k, u) \<in> {(k, u) \<in> set m. \<not> utxo_spent u \<and> utxo_confirmed u}. the (utxo_value u))"
proof -
  let ?P = "\<lambda>(k, u). \<not> utxo_spent u \<and> utxo_confirmed u"
  let ?f = "\<lambda>(k :: string, u). the (utxo_value u)"
  have d: "distinct (filter ?P m)"
    using assms by (intro distinct_filter distinct_keys_distinct)
  have "sum_list (map the (availableValues m)) = sum_list (map ?f (filter ?P m))"
    by (simp add: availableValues_def comp_def case_prod_beta cong: map_cong)
  also have "\<dots> = sum ?f (set (filter ?P m))"
    using d by (rule sum.distinct_set_conv_list[symmetric])
  also have "set (filter ?P m) = {(k, u) \<in> set m. \<not> utxo_spent u \<and> utxo_confirmed u}"
    by auto
  finally show ?thesis .
qed

lemma availableValues_mset:
  assumes "distinct (map fst m)" "distinct (map fst m')" "set m = set m'"
  shows "mset (availableValues m) = mset (availableValues m')"
proof -
  from assms have "mset m = mset m'"
    by (simp add: set_eq_iff_mset_eq_distinct distinct_keys_distinct)
  then show ?thesis
    by (simp add: availableValues_def)
qed

lemma unspent_listed:
  assumes "distinct (map fst m)" "map_of m k = Some e"
  shows "(\<exists>u \<in> set (map (\<lambda>(key, u). \<lparr>unspent_utxo = key, unspent_value = utxo_value u,
                                        unspent_confirmed = utxo_confirmed u\<rparr>)
                        (filter (\<lambda>(key, u). \<not> utxo_spent u) m)).
            unspent_utxo u = k) \<longleftrightarrow> \<not> utxo_spent e"
proof
  assume "\<exists>u \<in> set (map (\<lambda>(key, u). \<lparr>unspent_utxo = key, unspent_value = utxo_value u,
                                        unspent_confirmed = utxo_confirmed u\<rparr>)
                        (filter (\<lambda>(key, u). \<not> utxo_spent u) m)).
            unspent_utxo u = k"
  then obtain e' where e': "(k, e') \<in> set m" "\<not> utxo_spent e'"
    by auto
  from assms(1) e'(1) have "map_of m k = Some e'" by (rule map_of_is_SomeI)
  with assms(2) e'(2) show "\<not> utxo_spent e" by simp
next
  assume n: "\<not> utxo_spent e"
  from assms(2) have "(k, e) \<in> set m" by (rule map_of_SomeD)
  with n show "\<exists>u \<in> set (map (\<lambda>(key, u). \<lparr>unspent_utxo = key, unspent_value = utxo_value u,
                                        unspent_confirmed = utxo_confirmed u\<rparr>)
                        (filter (\<lambda>(key, u). \<not> utxo_spent u) m)).
            unspent_utxo u = k"
    by force
qed

subsection \<open>Reordering the transactions\<close>

lemma mset_concat_map_perm:
  assumes "mset xs = mset ys"
  shows "mset (concat (map f xs)) = mset (concat (map f ys))"
proof -
  have c: "mset (concat (map f zs)) = sum_mset (image_mset (\<lambda>z. mset (f z)) (mset zs))" for zs
    by (induction zs) simp_all
  show ?thesis unfolding c by (simp only: assms)
qed

lemma incomingValues_perm:
  assumes "mset txs = mset txs'"
  shows "mset (incomingValues c a txs) = mset (incomingValues c a txs')"
proof -
  from assms have "mset (filter (\<lambda>t. confirmedTx t = c) txs)
      = mset (filter (\<lambda>t. confirmedTx t = c) txs')"
    by (simp only: mset_filter)
  then show ?thesis unfolding incomingValues_def by (rule mset_concat_map_perm)
qed

lemma outgoingValues_perm:
  assumes "mset txs = mset txs'"
  shows "mset (outgoingValues c a txs) = mset (outgoingValues c a txs')"
proof -
  from assms have "mset (filter (\<lambda>t. confirmedTx t = c) txs)
      = mset (filter (\<lambda>t. confirmedTx t = c) txs')"
    by (simp only: mset_filter)
  then show ?thesis unfolding outgoingValues_def by (rule mset_concat_map_perm)
qed

lemma js_total_perm:
  assumes "mset vs = mset ws" "magnitude vs \<le> 2 ^ 53"
  shows "js_total vs = js_total ws"
proof -
  from assms have "magnitude ws \<le> 2 ^ 53" by (simp only: magnitude_perm[OF assms(1)])
  then have "js_total ws = exact_total ws" by (rule js_total_exact)
  moreover from assms(2) have "js_total vs = exact_total vs" by (rule js_total_exact)
  moreover from assms(1) have "exact_total vs = exact_total ws" by (rule exact_total_perm)
  ultimately show ?thesis by simp
qed

lemma spentKeys_set_cong:
  "set txs = set txs' \<Longrightarrow> set (spentKeys a txs) = set (spentKeys a txs')"
  by (auto simp: in_spentKeys)

lemma allEntries_set_cong:
  assumes "set txs = set txs'"
  shows "set (allEntries a txs) = set (allEntries a txs')"
proof -
  have "(k, e) \<in> set (allEntries a txs) \<longleftrightarrow> (k, e) \<in> set (allEntries a txs')" for k e
    unfolding in_allEntries spentKeys_set_cong[OF assms] assms ..
  then show ?thesis by auto
qed

lemma writesAgree_set_cong: "set txs = set txs' \<Longrightarrow> writesAgree a txs = writesAgree a txs'"
  by (simp only: writesAgree_def)

lemma map_of_setAll_functional:
  assumes "\<forall>k e e'. (k, e) \<in> set es \<and> (k, e') \<in> set es \<longrightarrow> e = e'"
  shows "map_of (setAll es []) k = Some e \<longleftrightarrow> (k, e) \<in> set es"
proof
  assume "map_of (setAll es []) k = Some e"
  then have "map_of (rev es) k = Some e" by (simp add: map_of_setAll)
  then have "(k, e) \<in> set (rev es)" by (rule map_of_SomeD)
  then show "(k, e) \<in> set es" by simp
next
  assume m: "(k, e) \<in> set es"
  then have "k \<in> fst ` set (rev es)" by force
  then obtain e' where e': "map_of (rev es) k = Some e'"
    by (metis map_of_eq_None_iff not_None_eq)
  then have "(k, e') \<in> set (rev es)" by (rule map_of_SomeD)
  with m assms have "e' = e" by auto
  with e' show "map_of (setAll es []) k = Some e" by (simp add: map_of_setAll)
qed

lemma set_setAll_functional:
  assumes "\<forall>k e e'. (k, e) \<in> set es \<and> (k, e') \<in> set es \<longrightarrow> e = e'"
  shows "set (setAll es []) = set es"
proof
  show "set (setAll es []) \<subseteq> set es" using set_setAll[of es "[]"] by simp
next
  show "set es \<subseteq> set (setAll es [])"
  proof
    fix p assume p: "p \<in> set es"
    obtain k e where ke: "p = (k, e)" by (cases p)
    from p have "map_of (setAll es []) k = Some e"
      unfolding ke map_of_setAll_functional[OF assms] .
    then show "p \<in> set (setAll es [])" unfolding ke by (rule map_of_SomeD)
  qed
qed

lemma allEntries_functional:
  assumes w: "writesAgree a txs"
    and e: "(k, e) \<in> set (allEntries a txs)" and e': "(k, e') \<in> set (allEntries a txs)"
  shows "e = e'"
proof -
  let ?S = "set (spentKeys a txs)"
  from e obtain t outs j where t: "t \<in> set txs" "tx_outputs t = Some outs" "j < length outs"
    "output_address (outs ! j) = Some a" "k = utxoKey (js_str (tx_hash t)) j"
    "e = \<lparr>utxo_value = output_value (outs ! j), utxo_spent = (k \<in> ?S),
          utxo_confirmed = confirmedTx t\<rparr>"
    unfolding in_allEntries by blast
  from e' obtain t' outs' j' where t': "t' \<in> set txs" "tx_outputs t' = Some outs'"
    "j' < length outs'" "output_address (outs' ! j') = Some a"
    "k = utxoKey (js_str (tx_hash t')) j'"
    "e' = \<lparr>utxo_value = output_value (outs' ! j'), utxo_spent = (k \<in> ?S),
           utxo_confirmed = confirmedTx t'\<rparr>"
    unfolding in_allEntries by blast
  from t(5) t'(5) have h: "js_str (tx_hash t) = js_str (tx_hash t')" and j: "j = j'"
    by (simp_all add: utxoKey_inj)
  from t(3) t'(3) j have z: "(outs ! j, outs' ! j) \<in> set (zip outs outs')"
    by (auto simp: set_zip)
  from w t(1) t'(1) h t(2) t'(2)
  have "\<forall>(out, out') \<in> set (zip outs outs').
          output_address out = Some a \<and> output_address out' = Some a \<longrightarrow>
          output_value out = output_value out' \<and> confirmedTx t = confirmedTx t'"
    unfolding writesAgree_def by fastforce
  with z t(4) t'(4) j
  have "output_value (outs ! j) = output_value (outs' ! j') \<and> confirmedTx t = confirmedTx t'"
    by fastforce
  with t(6) t'(6) show ?thesis by simp
qed

lemma unspent_set_cong:
  "set m = set m' \<Longrightarrow>
   set (map (\<lambda>(key, u). \<lparr>unspent_utxo = key, unspent_value = utxo_value u,
                          unspent_confirmed = utxo_confirmed u\<rparr>)
          (filter (\<lambda>(key, u). \<not> utxo_spent u) m))
   = set (map (\<lambda>(key, u). \<lparr>unspent_utxo = key, unspent_value = utxo_value u,
                            unspent_confirmed = utxo_confirmed u\<rparr>)
            (filter (\<lambda>(key, u). \<not> utxo_spent u) m'))"
  by simp

lemma utxos_reordered:
  assumes s: "set txs = set txs'" and w: "writesAgree a txs"
  shows "map_of (setAll (allEntries a txs) []) = map_of (setAll (allEntries a txs') [])"
    and "set (setAll (allEntries a txs) []) = set (setAll (allEntries a txs') [])"
proof -
  from w s have w': "writesAgree a txs'" by (simp only: writesAgree_set_cong[OF s])
  have f: "\<forall>k e e'. (k, e) \<in> set (allEntries a txs) \<and> (k, e') \<in> set (allEntries a txs)
             \<longrightarrow> e = e'"
    using allEntries_functional[OF w] by blast
  have f': "\<forall>k e e'. (k, e) \<in> set (allEntries a txs') \<and> (k, e') \<in> set (allEntries a txs')
             \<longrightarrow> e = e'"
    using allEntries_functional[OF w'] by blast
  have c: "set (allEntries a txs) = set (allEntries a txs')"
    using s by (rule allEntries_set_cong)
  show "set (setAll (allEntries a txs) []) = set (setAll (allEntries a txs') [])"
    by (simp only: set_setAll_functional[OF f] set_setAll_functional[OF f'] c)
  have "map_of (setAll (allEntries a txs) []) k = map_of (setAll (allEntries a txs') []) k" for k
  proof (cases "map_of (setAll (allEntries a txs) []) k")
    case None
    have "map_of (setAll (allEntries a txs') []) k = None"
    proof (rule ccontr)
      assume "map_of (setAll (allEntries a txs') []) k \<noteq> None"
      then obtain e where "map_of (setAll (allEntries a txs') []) k = Some e" by blast
      then have "(k, e) \<in> set (allEntries a txs)"
        unfolding map_of_setAll_functional[OF f'] c .
      then have "map_of (setAll (allEntries a txs) []) k = Some e"
        unfolding map_of_setAll_functional[OF f] .
      with None show False by simp
    qed
    with None show ?thesis by simp
  next
    case (Some e)
    then have "(k, e) \<in> set (allEntries a txs')"
      unfolding map_of_setAll_functional[OF f] c .
    then have "map_of (setAll (allEntries a txs') []) k = Some e"
      unfolding map_of_setAll_functional[OF f'] .
    with Some show ?thesis by simp
  qed
  then show "map_of (setAll (allEntries a txs) []) = map_of (setAll (allEntries a txs') [])"
    by (rule ext)
qed

section \<open>Properties\<close>

text \<open>
  Claim C6.  The map built by \<open>analyzeUTXOs\<close> has no key twice, so an output reference
  has at most one entry, in the map and in the returned array.  Every key of the map is
  the key of an output of the list that pays the address, and the key text
  \<open>hash:index\<close> determines the hash and the index: the index is written in decimal and
  contains no colon, so the last colon of the key separates the two.
\<close>

theorem output_reference_once:
  assumes "analyzeUTXOs_state a txs = Inr st"
  shows "distinct (map fst (st_utxos st))
    \<and> (\<forall>h i. length (filter (\<lambda>(k, u). k = utxoKey h i) (st_utxos st)) \<le> 1)
    \<and> (\<forall>h i h' i'. utxoKey h i = utxoKey h' i' \<longrightarrow> h = h' \<and> i = i')
    \<and> (\<forall>(k, u) \<in> set (st_utxos st).
          \<exists>t \<in> set txs. \<exists>outs. tx_outputs t = Some outs
            \<and> (\<exists>j < length outs. output_address (outs ! j) = Some a
                  \<and> k = utxoKey (js_str (tx_hash t)) j))
    \<and> (\<exists>r. analyzeUTXOs a txs = Inr r \<and> distinct (map unspent_utxo (unspentUTXOs r)))"
proof (intro conjI)
  from assms show d: "distinct (map fst (st_utxos st))"
    by (rule state_utxos_distinct)
  then show "\<forall>h i. length (filter (\<lambda>(k, u). k = utxoKey h i) (st_utxos st)) \<le> 1"
    by (intro allI at_most_one_per_key)
  show "\<forall>h i h' i'. utxoKey h i = utxoKey h' i' \<longrightarrow> h = h' \<and> i = i'"
    by (simp add: utxoKey_inj)
  show "\<forall>(k, u) \<in> set (st_utxos st).
          \<exists>t \<in> set txs. \<exists>outs. tx_outputs t = Some outs
            \<and> (\<exists>j < length outs. output_address (outs ! j) = Some a
                  \<and> k = utxoKey (js_str (tx_hash t)) j)"
  proof (clarify)
    fix k u assume "(k, u) \<in> set (st_utxos st)"
    with assms have "(k, u) \<in> set (allEntries a txs)"
      by (rule state_utxos_written)
    then show "\<exists>t \<in> set txs. \<exists>outs. tx_outputs t = Some outs
            \<and> (\<exists>j < length outs. output_address (outs ! j) = Some a
                  \<and> k = utxoKey (js_str (tx_hash t)) j)"
      unfolding in_allEntries by blast
  qed
  from d have "distinct (map fst (filter (\<lambda>(key, u). \<not> utxo_spent u) (st_utxos st)))"
    by (rule distinct_map_filter)
  then show "\<exists>r. analyzeUTXOs a txs = Inr r \<and> distinct (map unspent_utxo (unspentUTXOs r))"
    by (simp add: analyzeUTXOs_of_state[OF assms] unspent_keys del: map_map)
qed

theorem output_reference_once_witness:
  "distinct (map fst
     [(''aa:0'', \<lparr>utxo_value = Some 7, utxo_spent = False, utxo_confirmed = False\<rparr>),
      (''aa:1'', \<lparr>utxo_value = Some 6, utxo_spent = False, utxo_confirmed = True\<rparr>)])"
proof -
  let ?t1 = "\<lparr>tx_hash = Some ''aa'', tx_blockNumber = Some 7,
       tx_outputs = Some [\<lparr>output_address = Some ''me'', output_value = Some 5\<rparr>,
                          \<lparr>output_address = Some ''me'', output_value = Some 6\<rparr>],
       tx_inputs = Some []\<rparr>"
  let ?t2 = "\<lparr>tx_hash = Some ''aa'', tx_blockNumber = None,
       tx_outputs = Some [\<lparr>output_address = Some ''me'', output_value = Some 7\<rparr>],
       tx_inputs = Some []\<rparr>"
  let ?st = "\<lparr>st_utxos =
       [(''aa:0'', \<lparr>utxo_value = Some 7, utxo_spent = False, utxo_confirmed = False\<rparr>),
        (''aa:1'', \<lparr>utxo_value = Some 6, utxo_spent = False, utxo_confirmed = True\<rparr>)],
      st_incoming = Num 11, st_outgoing = Num 0,
      st_incomingPending = Num 7, st_outgoingPending = Num 0\<rparr>"
  have h: "analyzeUTXOs_state ''me'' [?t1, ?t2] = Inr ?st" by code_simp
  from output_reference_once[OF h] show ?thesis by simp
qed

text \<open>
  Claim C8, as amended.  \<open>analyzeUTXOs\<close> validates nothing.  It aborts exactly when a
  record of the list has no \<open>inputs\<close>, has no \<open>outputs\<close>, or has an input that passes the
  address test and has no \<open>prevout\<close>; the error is then the \<open>TypeError\<close> of the failed
  property read, and no object is returned.  On every other list, whatever the \<open>hash\<close>
  and the output values of its records, an object is returned.
\<close>

theorem analyzeUTXOs_aborts_iff:
  "(analyzeUTXOs a txs = Inl TypeError \<longleftrightarrow>
      (\<exists>t \<in> set txs. tx_inputs t = None \<or> tx_outputs t = None
         \<or> (\<exists>ins inp. tx_inputs t = Some ins \<and> inp \<in> set ins \<and> spends a inp
               \<and> input_prevout inp = None)))
   \<and> (\<forall>e. analyzeUTXOs a txs = Inl e \<longrightarrow> e = TypeError)
   \<and> (analyzeUTXOs a txs \<noteq> Inl TypeError \<longrightarrow> (\<exists>r. analyzeUTXOs a txs = Inr r))"
proof -
  have "(\<exists>t \<in> set txs. tx_inputs t = None \<or> tx_outputs t = None
         \<or> (\<exists>ins inp. tx_inputs t = Some ins \<and> inp \<in> set ins \<and> spends a inp
               \<and> input_prevout inp = None))
      \<longleftrightarrow> \<not> (\<forall>t \<in> set txs. readable a t)"
    using not_readable_iff[of a] by blast
  then show ?thesis
    by (simp add: analyzeUTXOs_eq)
qed

theorem analyzeUTXOs_aborts_iff_witness:
  "analyzeUTXOs ''me''
     [\<lparr>tx_hash = Some ''aa'', tx_blockNumber = Some 7,
       tx_outputs = Some [\<lparr>output_address = Some ''me'', output_value = Some 5000\<rparr>],
       tx_inputs = Some []\<rparr>,
      \<lparr>tx_hash = Some ''bb'', tx_blockNumber = Some 8,
       tx_outputs = Some [\<lparr>output_address = Some ''me'', output_value = Some 100\<rparr>],
       tx_inputs = None\<rparr>]
     = Inl TypeError
   \<and> (\<exists>r. analyzeUTXOs ''me''
          [\<lparr>tx_hash = None, tx_blockNumber = Some 1,
            tx_outputs = Some [\<lparr>output_address = Some ''me'', output_value = None\<rparr>],
            tx_inputs = Some []\<rparr>] = Inr r)"
proof
  let ?bad = "[\<lparr>tx_hash = Some ''aa'', tx_blockNumber = Some 7,
       tx_outputs = Some [\<lparr>output_address = Some ''me'', output_value = Some 5000\<rparr>],
       tx_inputs = Some []\<rparr>,
      \<lparr>tx_hash = Some ''bb'', tx_blockNumber = Some 8,
       tx_outputs = Some [\<lparr>output_address = Some ''me'', output_value = Some 100\<rparr>],
       tx_inputs = None\<rparr>]"
  have "\<exists>t \<in> set ?bad. tx_inputs t = None \<or> tx_outputs t = None
         \<or> (\<exists>ins inp. tx_inputs t = Some ins \<and> inp \<in> set ins \<and> spends ''me'' inp
               \<and> input_prevout inp = None)"
    by simp
  with analyzeUTXOs_aborts_iff[of "''me''" ?bad]
  show "analyzeUTXOs ''me'' ?bad = Inl TypeError"
    by blast
next
  let ?odd = "[\<lparr>tx_hash = None, tx_blockNumber = Some 1,
            tx_outputs = Some [\<lparr>output_address = Some ''me'', output_value = None\<rparr>],
            tx_inputs = Some []\<rparr>]"
  have "\<not> (\<exists>t \<in> set ?odd. tx_inputs t = None \<or> tx_outputs t = None
         \<or> (\<exists>ins inp. tx_inputs t = Some ins \<and> inp \<in> set ins \<and> spends ''me'' inp
               \<and> input_prevout inp = None))"
    by simp
  with analyzeUTXOs_aborts_iff[of "''me''" ?odd]
  show "\<exists>r. analyzeUTXOs ''me'' ?odd = Inr r"
    by blast
qed

text \<open>
  The claim as the specification states it fails: a record without \<open>hash\<close> and with an
  output without \<open>value\<close> is classified, under the key \<open>undefined:0\<close> and with sums that
  are \<^verbatim>\<open>NaN\<close>.
\<close>

theorem malformed_record_is_classified:
  "analyzeUTXOs ''me''
     [\<lparr>tx_hash = None, tx_blockNumber = Some 1,
       tx_outputs = Some [\<lparr>output_address = Some ''me'', output_value = None\<rparr>],
       tx_inputs = Some []\<rparr>]
   = Inr \<lparr>incoming = NaN, outgoing = Num 0, incomingPending = Num 0,
          outgoingPending = Num 0, availableBalance = NaN,
          unspentUTXOs =
            [\<lparr>unspent_utxo = ''undefined:0'', unspent_value = None,
              unspent_confirmed = True\<rparr>]\<rparr>"
  by code_simp

text \<open>
  Claim C9.  The keys of the spent set are built from the \<open>prevout\<close> object of the inputs
  that pass the address test.  Whenever \<open>analyzeUTXOs\<close> returns an object, every such
  input has a \<open>prevout\<close>, and a list in which one of them has none makes it throw.  An
  input without \<open>coin\<close> has no effect at all: removing every such input from every
  transaction changes neither the local variables (the map with its spent flags and the
  four sums) nor the returned object, so two lists that differ only in inputs without
  \<open>coin\<close>, whatever the \<open>prevout\<close> of these, give the same result.
\<close>

theorem prevout_read_for_own_inputs_only:
  "(firstPass a txs {} = Inr S \<longrightarrow>
      (\<forall>k. k \<in> S \<longleftrightarrow>
         (\<exists>t \<in> set txs. \<exists>ins. tx_inputs t = Some ins
            \<and> (\<exists>inp \<in> set ins. spends a inp
                  \<and> (\<exists>p. input_prevout inp = Some p
                        \<and> k = utxoKey (prevout_hash p) (unat (prevout_index p)))))))
   \<and> (analyzeUTXOs a txs = Inr r \<longrightarrow>
        (\<forall>t \<in> set txs. \<forall>ins. tx_inputs t = Some ins \<longrightarrow>
           (\<forall>inp \<in> set ins. spends a inp \<longrightarrow> input_prevout inp \<noteq> None)))
   \<and> (t \<in> set txs \<and> tx_inputs t = Some ins \<and> inp \<in> set ins \<and> spends a inp
        \<and> input_prevout inp = None \<longrightarrow> analyzeUTXOs a txs = Inl TypeError)
   \<and> analyzeUTXOs_state a (map dropCoinless txs) = analyzeUTXOs_state a txs
   \<and> analyzeUTXOs a (map dropCoinless txs) = analyzeUTXOs a txs
   \<and> (map dropCoinless txs = map dropCoinless txs' \<longrightarrow>
        analyzeUTXOs a txs = analyzeUTXOs a txs')"
proof (intro conjI impI)
  assume "firstPass a txs {} = Inr S"
  then have "S = set (spentKeys a txs)"
    by (simp add: firstPass_eq split: if_splits)
  then show "\<forall>k. k \<in> S \<longleftrightarrow>
         (\<exists>t \<in> set txs. \<exists>ins. tx_inputs t = Some ins
            \<and> (\<exists>inp \<in> set ins. spends a inp
                  \<and> (\<exists>p. input_prevout inp = Some p
                        \<and> k = utxoKey (prevout_hash p) (unat (prevout_index p)))))"
    by (simp add: in_spentKeys in_inputKeys)
next
  assume "analyzeUTXOs a txs = Inr r"
  then have "\<forall>t \<in> set txs. readable a t"
    by (rule analyzeUTXOs_Inr_readable)
  then show "\<forall>t \<in> set txs. \<forall>ins. tx_inputs t = Some ins \<longrightarrow>
           (\<forall>inp \<in> set ins. spends a inp \<longrightarrow> input_prevout inp \<noteq> None)"
    by (auto simp: readable_def inputsReadable_def)
next
  assume "t \<in> set txs \<and> tx_inputs t = Some ins \<and> inp \<in> set ins \<and> spends a inp
        \<and> input_prevout inp = None"
  then have "t \<in> set txs" "\<not> readable a t"
    by (auto simp: not_readable_iff)
  then have "\<not> (\<forall>t \<in> set txs. readable a t)" by blast
  then show "analyzeUTXOs a txs = Inl TypeError"
    by (simp add: analyzeUTXOs_eq)
next
  show "analyzeUTXOs_state a (map dropCoinless txs) = analyzeUTXOs_state a txs"
    by (rule analyzeUTXOs_state_dropCoinless)
next
  show "analyzeUTXOs a (map dropCoinless txs) = analyzeUTXOs a txs"
    by (rule analyzeUTXOs_dropCoinless)
next
  assume "map dropCoinless txs = map dropCoinless txs'"
  then show "analyzeUTXOs a txs = analyzeUTXOs a txs'"
    by (metis analyzeUTXOs_dropCoinless)
qed

theorem prevout_read_for_own_inputs_only_witness:
  "analyzeUTXOs ''me''
     [\<lparr>tx_hash = Some ''aa'', tx_blockNumber = Some 7,
       tx_outputs = Some [\<lparr>output_address = Some ''me'', output_value = Some 5000\<rparr>],
       tx_inputs = Some []\<rparr>,
      \<lparr>tx_hash = Some ''bb'', tx_blockNumber = Some 8,
       tx_outputs = Some [],
       tx_inputs = Some [\<lparr>input_coin = None,
                          input_prevout = Some \<lparr>prevout_hash = ''aa'', prevout_index = 0\<rparr>\<rparr>]\<rparr>]
   = Inr \<lparr>incoming = Num 5000, outgoing = Num 0, incomingPending = Num 0,
          outgoingPending = Num 0, availableBalance = Num 5000,
          unspentUTXOs =
            [\<lparr>unspent_utxo = ''aa:0'', unspent_value = Some 5000,
              unspent_confirmed = True\<rparr>]\<rparr>
   \<and> analyzeUTXOs ''me''
     [\<lparr>tx_hash = Some ''bb'', tx_blockNumber = Some 8,
       tx_outputs = Some [],
       tx_inputs = Some [\<lparr>input_coin = Some \<lparr>coin_address = Some ''me'', coin_value = Some 5000\<rparr>,
                          input_prevout = None\<rparr>]\<rparr>]
   = Inl TypeError"
proof
  let ?with = "[\<lparr>tx_hash = Some ''aa'', tx_blockNumber = Some 7,
       tx_outputs = Some [\<lparr>output_address = Some ''me'', output_value = Some 5000\<rparr>],
       tx_inputs = Some []\<rparr>,
      \<lparr>tx_hash = Some ''bb'', tx_blockNumber = Some 8,
       tx_outputs = Some [],
       tx_inputs = Some [\<lparr>input_coin = None,
                          input_prevout = Some \<lparr>prevout_hash = ''aa'', prevout_index = 0\<rparr>\<rparr>]\<rparr>]"
  let ?without = "[\<lparr>tx_hash = Some ''aa'', tx_blockNumber = Some 7,
       tx_outputs = Some [\<lparr>output_address = Some ''me'', output_value = Some 5000\<rparr>],
       tx_inputs = Some []\<rparr>,
      \<lparr>tx_hash = Some ''bb'', tx_blockNumber = Some 8,
       tx_outputs = Some [],
       tx_inputs = Some []\<rparr>]"
  have same: "map dropCoinless ?with = map dropCoinless ?without"
    by (simp add: dropCoinless_def hasCoin_def)
  have "analyzeUTXOs ''me'' ?without
      = Inr \<lparr>incoming = Num 5000, outgoing = Num 0, incomingPending = Num 0,
          outgoingPending = Num 0, availableBalance = Num 5000,
          unspentUTXOs =
            [\<lparr>unspent_utxo = ''aa:0'', unspent_value = Some 5000,
              unspent_confirmed = True\<rparr>]\<rparr>"
    by code_simp
  moreover from prevout_read_for_own_inputs_only[of "''me''" ?with _ _ _ _ _ ?without] same
  have "analyzeUTXOs ''me'' ?with = analyzeUTXOs ''me'' ?without"
    by blast
  ultimately show "analyzeUTXOs ''me'' ?with
      = Inr \<lparr>incoming = Num 5000, outgoing = Num 0, incomingPending = Num 0,
          outgoingPending = Num 0, availableBalance = Num 5000,
          unspentUTXOs =
            [\<lparr>unspent_utxo = ''aa:0'', unspent_value = Some 5000,
              unspent_confirmed = True\<rparr>]\<rparr>"
    by simp
next
  let ?t = "\<lparr>tx_hash = Some ''bb'', tx_blockNumber = Some 8,
       tx_outputs = Some [],
       tx_inputs = Some [\<lparr>input_coin = Some \<lparr>coin_address = Some ''me'', coin_value = Some 5000\<rparr>,
                          input_prevout = None\<rparr>]\<rparr>"
  let ?inp = "\<lparr>input_coin = Some \<lparr>coin_address = Some ''me'', coin_value = Some 5000\<rparr>,
                          input_prevout = None\<rparr>"
  have "?t \<in> set [?t] \<and> tx_inputs ?t = Some [?inp] \<and> ?inp \<in> set [?inp] \<and> spends ''me'' ?inp
        \<and> input_prevout ?inp = None"
    by (simp add: spends_def)
  with prevout_read_for_own_inputs_only[of "''me''" "[?t]" _ _ ?t "[?inp]" ?inp]
  show "analyzeUTXOs ''me'' [?t] = Inl TypeError"
    by blast
qed

text \<open>
  Claim C10, as amended.  \<open>calculateMaxSendable\<close> returns the JavaScript difference of the
  available balance and the fee when the exact difference is positive, and \<open>0\<close>
  otherwise.  The JavaScript difference is the exact difference whenever that has a
  magnitude of at most \<open>2^53\<close>, and its rounding to the nearest double beyond.  For all
  arguments, \<^verbatim>\<open>NaN\<close> and the infinities included, the result is a number that is not
  negative.
\<close>

theorem calculateMaxSendable_rounded:
  "calculateMaxSendable (Num a) (Num f) = (if 0 < a - f then js_round (a - f) else Num 0)
   \<and> (\<bar>a - f\<bar> \<le> 2 ^ 53 \<longrightarrow>
        calculateMaxSendable (Num a) (Num f) = Num (if 0 < a - f then a - f else 0))
   \<and> calculateMaxSendable b g \<noteq> NaN
   \<and> \<not> js_lt (calculateMaxSendable b g) (Num 0)"
proof (intro conjI impI)
  have d: "js_sub (Num a) (Num f) = js_round (a - f)"
    by (simp add: js_sub_def)
  show r: "calculateMaxSendable (Num a) (Num f)
      = (if 0 < a - f then js_round (a - f) else Num 0)"
    unfolding calculateMaxSendable_def Let_def d js_round_sign ..
  show "calculateMaxSendable (Num a) (Num f) = Num (if 0 < a - f then a - f else 0)"
    if "\<bar>a - f\<bar> \<le> 2 ^ 53"
    using that by (simp add: r js_round_exact)
  show "calculateMaxSendable b g \<noteq> NaN"
    using js_gt_zero_not_negative[of "js_sub b g"]
    by (simp add: calculateMaxSendable_def Let_def)
  show "\<not> js_lt (calculateMaxSendable b g) (Num 0)"
    using js_gt_zero_not_negative[of "js_sub b g"]
    by (simp add: calculateMaxSendable_def Let_def)
qed

theorem calculateMaxSendable_rounded_witness:
  "\<bar>50000 - 1000\<bar> \<le> (2::int) ^ 53
   \<and> calculateMaxSendable (Num 50000) (Num 1000) = Num 49000"
proof -
  have h: "\<bar>50000 - 1000\<bar> \<le> (2::int) ^ 53" by simp
  from calculateMaxSendable_rounded[of 50000 1000] h
  have "calculateMaxSendable (Num 50000) (Num 1000)
      = Num (if (0::int) < 50000 - 1000 then 50000 - 1000 else 0)"
    by blast
  with h show ?thesis by simp
qed

text \<open>
  The claim as the specification states it fails beyond \<open>2^53\<close>: with a balance of
  \<open>2^54\<close> and a fee of 1 the code returns \<open>2^54\<close>, not the difference.
\<close>

theorem calculateMaxSendable_not_difference:
  "calculateMaxSendable (Num 18014398509481984) (Num 1) = Num 18014398509481984
   \<and> Num 18014398509481984 \<noteq> Num (18014398509481984 - 1)"
  by code_simp

text \<open>
  Claim C1, as amended.  When the amount is positive, the fee is not negative, the
  confirmed entries are worth at least the amount plus the fee, and the absolute values
  of the confirmed entries add up to at most \<open>2^53\<close>, so that every addition of the code is
  exact, the selection returns a plan: the selected entries are a non-empty prefix of the
  confirmed entries sorted by value in descending order, the shortest prefix whose value
  reaches the amount plus the fee.  Hence the selected value covers the amount plus the
  fee, what is left after paying both is not negative, and every selected entry is a
  confirmed entry of the input.
\<close>

theorem select_covering_prefix:
  assumes "0 < amount" and "0 \<le> fee"
    and "amount + fee \<le> sum_list (map unspent_value (filter unspent_confirmed us))"
    and "sum_list (map (\<lambda>u. \<bar>unspent_value u\<bar>) (filter unspent_confirmed us)) \<le> 2 ^ 53"
  shows "\<exists>n. 0 < n \<and> n \<le> length (sortedUtxos us)
    \<and> sendTransaction_select us amount fee
        = Inr \<lparr>selectedUtxos = take n (sortedUtxos us),
               inputSum = Num (sum_list (map unspent_value (take n (sortedUtxos us))))\<rparr>
    \<and> amount + fee \<le> sum_list (map unspent_value (take n (sortedUtxos us)))
    \<and> (\<forall>m<n. sum_list (map unspent_value (take m (sortedUtxos us))) < amount + fee)
    \<and> 0 \<le> sum_list (map unspent_value (take n (sortedUtxos us))) - amount - fee
    \<and> (\<forall>u \<in> set (take n (sortedUtxos us)). unspent_confirmed u \<and> u \<in> set us)
    \<and> mset (sortedUtxos us) = mset (filter unspent_confirmed us)
    \<and> sorted_wrt (\<lambda>a b. unspent_value a \<ge> unspent_value b) (sortedUtxos us)"
proof -
  let ?xs = "sortedUtxos us"
  let ?req = "amount + fee"
  let ?ps = "\<lambda>m. sum_list (map unspent_value (take m ?xs))"
  from selectLoop_exact_prefix[of ?xs ?req "[]" 0]
  obtain n where n: "n \<le> length ?xs"
    "selectLoop_exact ?xs ?req [] 0 = (take n ?xs, ?ps n)"
    "\<forall>m. 0 < m \<and> m < n \<longrightarrow> ?ps m < ?req"
    "(0 < n \<and> ?req \<le> ?ps n) \<or> (n = length ?xs \<and> (\<forall>m. 0 < m \<and> m \<le> length ?xs \<longrightarrow> ?ps m < ?req))"
    by auto
  have whole: "?req \<le> ?ps (length ?xs)"
    using assms(3) by (simp add: sum_sortedUtxos)
  have nonempty: "0 < length ?xs"
  proof (rule ccontr)
    assume "\<not> 0 < length ?xs"
    then have "?ps (length ?xs) = 0" by simp
    with whole assms(1,2) show False by simp
  qed
  from n(4) whole nonempty have reach: "0 < n" "?req \<le> ?ps n"
    by (auto simp: not_less[symmetric])
  have shortest: "\<forall>m<n. ?ps m < ?req"
  proof (intro allI impI)
    fix m assume "m < n"
    show "?ps m < ?req"
    proof (cases "m = 0")
      case True
      with assms(1,2) show ?thesis by simp
    next
      case False
      with \<open>m < n\<close> n(3) show ?thesis by simp
    qed
  qed
  have bound: "\<bar>0\<bar> + sum_list (map (\<lambda>u. \<bar>unspent_value u\<bar>) ?xs) \<le> 2 ^ 53"
    using assms(4) by (simp add: abs_sum_sortedUtxos)
  have "sum_list (map unspent_value (filter unspent_confirmed us))
      \<le> sum_list (map (\<lambda>u. \<bar>unspent_value u\<bar>) (filter unspent_confirmed us))"
    by (rule sum_list_mono) simp
  with assms have "\<bar>?req\<bar> \<le> 2 ^ 53" by simp
  then have req: "js_add (Num amount) (Num fee) = Num ?req"
    by (rule js_add_exact)
  have loop: "selectLoop ?xs (Num ?req) [] (Num 0) = (take n ?xs, Num (?ps n))"
    using selectLoop_exact_eq[OF bound, of ?req "[]"] n(2) by simp
  have result: "sendTransaction_select us amount fee
      = Inr \<lparr>selectedUtxos = take n ?xs, inputSum = Num (?ps n)\<rparr>"
    unfolding sendTransaction_select_def req Let_def loop using reach(2) by simp
  have members: "\<forall>u \<in> set (take n ?xs). unspent_confirmed u \<and> u \<in> set us"
  proof
    fix u assume "u \<in> set (take n ?xs)"
    then have "u \<in> set ?xs" by (rule in_set_takeD)
    then show "unspent_confirmed u \<and> u \<in> set us" by (simp add: set_sortedUtxos)
  qed
  from reach(2) have change: "0 \<le> ?ps n - amount - fee" by simp
  show ?thesis
    using reach n(1) result shortest change members mset_sortedUtxos[of us]
      descending_sortedUtxos[of us]
    by (intro exI[of _ n] conjI)
qed

theorem select_covering_prefix_witness:
  "(0::int) < 10000 \<and> (0::int) \<le> 1000
   \<and> sendTransaction_select
        [\<lparr>unspent_utxo = ''a:0'', unspent_value = 5000, unspent_confirmed = True\<rparr>,
         \<lparr>unspent_utxo = ''b:1'', unspent_value = 50000, unspent_confirmed = False\<rparr>,
         \<lparr>unspent_utxo = ''c:0'', unspent_value = 7000, unspent_confirmed = True\<rparr>,
         \<lparr>unspent_utxo = ''d:2'', unspent_value = 3000, unspent_confirmed = True\<rparr>]
        10000 1000
      = Inr \<lparr>selectedUtxos =
               [\<lparr>unspent_utxo = ''c:0'', unspent_value = 7000, unspent_confirmed = True\<rparr>,
                \<lparr>unspent_utxo = ''a:0'', unspent_value = 5000, unspent_confirmed = True\<rparr>],
             inputSum = Num 12000\<rparr>"
proof -
  let ?us = "[\<lparr>unspent_utxo = ''a:0'', unspent_value = 5000::int, unspent_confirmed = True\<rparr>,
         \<lparr>unspent_utxo = ''b:1'', unspent_value = 50000, unspent_confirmed = False\<rparr>,
         \<lparr>unspent_utxo = ''c:0'', unspent_value = 7000, unspent_confirmed = True\<rparr>,
         \<lparr>unspent_utxo = ''d:2'', unspent_value = 3000, unspent_confirmed = True\<rparr>]"
  have h1: "(0::int) < 10000" and h2: "(0::int) \<le> 1000" by simp_all
  have h3: "(10000::int) + 1000 \<le> sum_list (map unspent_value (filter unspent_confirmed ?us))"
    by simp
  have h4: "sum_list (map (\<lambda>u. \<bar>unspent_value u\<bar>) (filter unspent_confirmed ?us)) \<le> 2 ^ 53"
    by simp
  have s: "sortedUtxos ?us
      = [\<lparr>unspent_utxo = ''c:0'', unspent_value = 7000, unspent_confirmed = True\<rparr>,
         \<lparr>unspent_utxo = ''a:0'', unspent_value = 5000, unspent_confirmed = True\<rparr>,
         \<lparr>unspent_utxo = ''d:2'', unspent_value = 3000, unspent_confirmed = True\<rparr>]"
    by code_simp
  from select_covering_prefix[OF h1 h2 h3 h4]
  obtain n where n: "0 < n" "n \<le> length (sortedUtxos ?us)"
    "sendTransaction_select ?us 10000 1000
        = Inr \<lparr>selectedUtxos = take n (sortedUtxos ?us),
               inputSum = Num (sum_list (map unspent_value (take n (sortedUtxos ?us))))\<rparr>"
    "10000 + 1000 \<le> sum_list (map unspent_value (take n (sortedUtxos ?us)))"
    "\<forall>m<n. sum_list (map unspent_value (take m (sortedUtxos ?us))) < 10000 + 1000"
    by blast
  have "n = 2"
  proof -
    from n(1,2) s have "n = 1 \<or> n = 2 \<or> n = 3" by auto
    moreover have "n \<noteq> 1" using n(4) s by auto
    moreover have "n \<noteq> 3" using n(5)[rule_format, of 2] s by auto
    ultimately show ?thesis by blast
  qed
  with n(3) s show ?thesis by (simp add: numeral_2_eq_2)
qed

text \<open>
  The claim as the specification states it fails when the additions round: the confirmed
  entries \<open>2^53\<close>, 1 and 1 are worth \<open>2^53 + 2\<close>, but the code adds them to \<open>2^53\<close> and
  throws for an amount of \<open>2^53 + 2\<close>.
\<close>

theorem select_rounding_throws:
  "(0::int) < 9007199254740994 \<and> (0::int) \<le> 0
   \<and> 9007199254740994 + 0 \<le> sum_list (map unspent_value (filter unspent_confirmed
        [\<lparr>unspent_utxo = ''a:0'', unspent_value = 9007199254740992 :: int,
          unspent_confirmed = True\<rparr>,
         \<lparr>unspent_utxo = ''b:0'', unspent_value = 1, unspent_confirmed = True\<rparr>,
         \<lparr>unspent_utxo = ''c:0'', unspent_value = 1, unspent_confirmed = True\<rparr>]))
   \<and> sendTransaction_select
        [\<lparr>unspent_utxo = ''a:0'', unspent_value = 9007199254740992, unspent_confirmed = True\<rparr>,
         \<lparr>unspent_utxo = ''b:0'', unspent_value = 1, unspent_confirmed = True\<rparr>,
         \<lparr>unspent_utxo = ''c:0'', unspent_value = 1, unspent_confirmed = True\<rparr>]
        9007199254740994 0
      = Inl (Error (Insufficient (Num 9007199254740992) (Num 9007199254740994)))"
  by code_simp

text \<open>
  Claim C4, as amended.  When the values are not negative, the confirmed entries are
  worth less than the amount plus the fee, and the amount plus the fee is at most
  \<open>2^53\<close>, so that every addition of the code is exact, the selection throws: no plan is
  returned.  The error carries the value of the confirmed entries and the amount plus the
  fee, and their difference, the shortfall, is positive.  With confirmed entries worth
  900, an amount of 1000 and a fee of 100, the error reports 900 and 1100, a shortfall of
  200.
\<close>

theorem select_insufficient_funds:
  assumes "\<forall>u \<in> set us. 0 \<le> unspent_value u"
    and "sum_list (map unspent_value (filter unspent_confirmed us)) < amount + fee"
    and "amount + fee \<le> 2 ^ 53"
    and "available = sum_list (map unspent_value (filter unspent_confirmed us))"
  shows "sendTransaction_select us amount fee
           = Inl (Error (Insufficient (Num available) (Num (amount + fee))))
    \<and> 0 < (amount + fee) - available
    \<and> (available = 900 \<and> amount = 1000 \<and> fee = 100 \<longrightarrow>
         sendTransaction_select us amount fee = Inl (Error (Insufficient (Num 900) (Num 1100)))
         \<and> (amount + fee) - available = 200)"
proof -
  let ?xs = "sortedUtxos us"
  let ?req = "amount + fee"
  let ?ps = "\<lambda>m. sum_list (map unspent_value (take m ?xs))"
  have nonneg: "\<forall>u \<in> set ?xs. 0 \<le> unspent_value u"
    using assms(1) by (simp add: set_sortedUtxos)
  have short: "?ps m < ?req" for m
  proof -
    have "?ps m \<le> sum_list (map unspent_value ?xs)"
      using nonneg by (rule prefix_sum_le)
    with assms(2) show ?thesis by (simp add: sum_sortedUtxos)
  qed
  from selectLoop_exact_prefix[of ?xs ?req "[]" 0]
  obtain n where n: "selectLoop_exact ?xs ?req [] 0 = (take n ?xs, ?ps n)"
    "(0 < n \<and> ?req \<le> ?ps n) \<or> n = length ?xs"
    by auto
  from n(2) short[of n] have "n = length ?xs" by auto
  with n(1) have exact: "selectLoop_exact ?xs ?req [] 0 = (?xs, available)"
    by (simp add: sum_sortedUtxos assms(4))
  have "map (\<lambda>u. \<bar>unspent_value u\<bar>) ?xs = map unspent_value ?xs"
    using nonneg by simp
  then have "sum_list (map (\<lambda>u. \<bar>unspent_value u\<bar>) ?xs) = sum_list (map unspent_value ?xs)"
    by (simp only:)
  then have "sum_list (map (\<lambda>u. \<bar>unspent_value u\<bar>) ?xs) = available"
    by (simp only: sum_sortedUtxos assms(4))
  with assms(2,3,4) have bound: "\<bar>0\<bar> + sum_list (map (\<lambda>u. \<bar>unspent_value u\<bar>) ?xs) \<le> 2 ^ 53"
    by simp
  have "0 \<le> sum_list (map unspent_value ?xs)"
    using nonneg by (intro sum_list_nonneg) auto
  with assms(2,3) have "\<bar>?req\<bar> \<le> 2 ^ 53"
    by (simp add: sum_sortedUtxos)
  then have req: "js_add (Num amount) (Num fee) = Num ?req"
    by (rule js_add_exact)
  have loop: "selectLoop ?xs (Num ?req) [] (Num 0) = (?xs, Num available)"
    using selectLoop_exact_eq[OF bound, of ?req "[]"] exact by simp
  have thrown: "sendTransaction_select us amount fee
           = Inl (Error (Insufficient (Num available) (Num ?req)))"
    unfolding sendTransaction_select_def req Let_def loop using assms(2,4) by simp
  have scenario: "available = 900 \<and> amount = 1000 \<and> fee = 100 \<longrightarrow>
         sendTransaction_select us amount fee = Inl (Error (Insufficient (Num 900) (Num 1100)))
         \<and> (amount + fee) - available = 200"
    using thrown by auto
  from assms(2,4) have "0 < ?req - available" by simp
  with thrown scenario show ?thesis by blast
qed

theorem select_insufficient_funds_witness:
  "sendTransaction_select
      [\<lparr>unspent_utxo = ''a:0'', unspent_value = 500, unspent_confirmed = True\<rparr>,
       \<lparr>unspent_utxo = ''b:0'', unspent_value = 70000, unspent_confirmed = False\<rparr>,
       \<lparr>unspent_utxo = ''c:1'', unspent_value = 400, unspent_confirmed = True\<rparr>]
      1000 100
    = Inl (Error (Insufficient (Num 900) (Num 1100)))
   \<and> (1000 + 100) - (900::int) = 200"
proof -
  let ?us = "[\<lparr>unspent_utxo = ''a:0'', unspent_value = 500::int, unspent_confirmed = True\<rparr>,
       \<lparr>unspent_utxo = ''b:0'', unspent_value = 70000, unspent_confirmed = False\<rparr>,
       \<lparr>unspent_utxo = ''c:1'', unspent_value = 400, unspent_confirmed = True\<rparr>]"
  have h1: "\<forall>u \<in> set ?us. 0 \<le> unspent_value u" by simp
  have h2: "sum_list (map unspent_value (filter unspent_confirmed ?us)) < 1000 + 100" by simp
  have h3: "(1000::int) + 100 \<le> 2 ^ 53" by simp
  have h4: "900 = sum_list (map unspent_value (filter unspent_confirmed ?us))" by simp
  from select_insufficient_funds[OF h1 h2 h3 h4]
  have "(900::int) = 900 \<and> (1000::int) = 1000 \<and> (100::int) = 100 \<longrightarrow>
      sendTransaction_select ?us 1000 100 = Inl (Error (Insufficient (Num 900) (Num 1100)))
      \<and> (1000 + 100) - (900::int) = 200"
    by (elim conjE)
  then show ?thesis by simp
qed

text \<open>
  The claim as the specification states it fails when the additions round: the confirmed
  entries \<open>2^53 + 2\<close> and 1 are worth \<open>2^53 + 3\<close>, less than the amount \<open>2^53 + 4\<close>,
  but the code adds them to \<open>2^53 + 4\<close> and returns a plan.
\<close>

theorem select_rounding_returns_plan:
  "sum_list (map unspent_value (filter unspent_confirmed
        [\<lparr>unspent_utxo = ''a:0'', unspent_value = 9007199254740994 :: int,
          unspent_confirmed = True\<rparr>,
         \<lparr>unspent_utxo = ''b:0'', unspent_value = 1, unspent_confirmed = True\<rparr>]))
      < 9007199254740996 + 0
   \<and> sendTransaction_select
        [\<lparr>unspent_utxo = ''a:0'', unspent_value = 9007199254740994, unspent_confirmed = True\<rparr>,
         \<lparr>unspent_utxo = ''b:0'', unspent_value = 1, unspent_confirmed = True\<rparr>]
        9007199254740996 0
      = Inr \<lparr>selectedUtxos =
               [\<lparr>unspent_utxo = ''a:0'', unspent_value = 9007199254740994,
                 unspent_confirmed = True\<rparr>,
                \<lparr>unspent_utxo = ''b:0'', unspent_value = 1, unspent_confirmed = True\<rparr>],
             inputSum = Num 9007199254740996\<rparr>"
  by code_simp

text \<open>
  Claim C7, as amended.  On a list on which no property read throws, \<open>analyzeUTXOs\<close>
  returns an object in which \<open>incoming\<close> is the JavaScript sum, taken in the order of the
  list, of the values of the outputs paying the address in the transactions that have a
  block number, and \<open>incomingPending\<close> the same sum over the transactions that have none;
  \<open>outgoing\<close> and \<open>outgoingPending\<close> are the sums of the coin values of the inputs that
  pass the address test, split by the block number of the transaction that holds the
  input.  Each of the four is the exact integer sum (\<^verbatim>\<open>NaN\<close> when a value is absent) as
  long as the absolute values it adds total at most \<open>2^53\<close>.  A single transaction without
  block number that pays 20000 to the address gives 20000 in \<open>incomingPending\<close>, nothing
  in \<open>incoming\<close> and an available balance of 0.
\<close>

theorem sums_split_by_confirmation:
  assumes "\<forall>t \<in> set txs. readable a t"
  shows "(\<exists>r. analyzeUTXOs a txs = Inr r
      \<and> incoming r = js_total (concat (map (received a) (filter confirmedTx txs)))
      \<and> incomingPending r
          = js_total (concat (map (received a) (filter (\<lambda>t. \<not> confirmedTx t) txs)))
      \<and> outgoing r = js_total (concat (map (sent a) (filter confirmedTx txs)))
      \<and> outgoingPending r
          = js_total (concat (map (sent a) (filter (\<lambda>t. \<not> confirmedTx t) txs)))
      \<and> (magnitude (concat (map (received a) (filter confirmedTx txs))) \<le> 2 ^ 53 \<longrightarrow>
           incoming r = exact_total (concat (map (received a) (filter confirmedTx txs))))
      \<and> (magnitude (concat (map (received a) (filter (\<lambda>t. \<not> confirmedTx t) txs))) \<le> 2 ^ 53
           \<longrightarrow> incomingPending r
             = exact_total (concat (map (received a) (filter (\<lambda>t. \<not> confirmedTx t) txs))))
      \<and> (magnitude (concat (map (sent a) (filter confirmedTx txs))) \<le> 2 ^ 53 \<longrightarrow>
           outgoing r = exact_total (concat (map (sent a) (filter confirmedTx txs))))
      \<and> (magnitude (concat (map (sent a) (filter (\<lambda>t. \<not> confirmedTx t) txs))) \<le> 2 ^ 53
           \<longrightarrow> outgoingPending r
             = exact_total (concat (map (sent a) (filter (\<lambda>t. \<not> confirmedTx t) txs)))))
   \<and> analyzeUTXOs a
        [\<lparr>tx_hash = Some h, tx_blockNumber = None,
          tx_outputs = Some [\<lparr>output_address = Some a, output_value = Some 20000\<rparr>],
          tx_inputs = Some []\<rparr>]
      = Inr \<lparr>incoming = Num 0, outgoing = Num 0, incomingPending = Num 20000,
             outgoingPending = Num 0, availableBalance = Num 0,
             unspentUTXOs =
               [\<lparr>unspent_utxo = utxoKey h 0, unspent_value = Some 20000,
                 unspent_confirmed = False\<rparr>]\<rparr>"
proof
  let ?ic = "concat (map (received a) (filter confirmedTx txs))"
  let ?ip = "concat (map (received a) (filter (\<lambda>t. \<not> confirmedTx t) txs))"
  let ?oc = "concat (map (sent a) (filter confirmedTx txs))"
  let ?op = "concat (map (sent a) (filter (\<lambda>t. \<not> confirmedTx t) txs))"
  have v: "incomingValues True a txs = ?ic" "incomingValues False a txs = ?ip"
    "outgoingValues True a txs = ?oc" "outgoingValues False a txs = ?op"
    by (simp_all add: incomingValues_def outgoingValues_def)
  let ?r = "\<lparr>incoming = js_total ?ic, outgoing = js_total ?oc,
              incomingPending = js_total ?ip, outgoingPending = js_total ?op,
              availableBalance = sumAvailable (setAll (allEntries a txs) []) (Num 0),
              unspentUTXOs =
                map (\<lambda>(key, u). \<lparr>unspent_utxo = key, unspent_value = utxo_value u,
                                  unspent_confirmed = utxo_confirmed u\<rparr>)
                  (filter (\<lambda>(key, u). \<not> utxo_spent u) (setAll (allEntries a txs) []))\<rparr>"
  have r: "analyzeUTXOs a txs = Inr ?r"
    using assms by (simp add: analyzeUTXOs_eq v)
  show "\<exists>r. analyzeUTXOs a txs = Inr r
      \<and> incoming r = js_total ?ic \<and> incomingPending r = js_total ?ip
      \<and> outgoing r = js_total ?oc \<and> outgoingPending r = js_total ?op
      \<and> (magnitude ?ic \<le> 2 ^ 53 \<longrightarrow> incoming r = exact_total ?ic)
      \<and> (magnitude ?ip \<le> 2 ^ 53 \<longrightarrow> incomingPending r = exact_total ?ip)
      \<and> (magnitude ?oc \<le> 2 ^ 53 \<longrightarrow> outgoing r = exact_total ?oc)
      \<and> (magnitude ?op \<le> 2 ^ 53 \<longrightarrow> outgoingPending r = exact_total ?op)"
    using r by (intro exI[of _ ?r] conjI impI) (simp_all add: js_total_exact)
next
  show "analyzeUTXOs a
        [\<lparr>tx_hash = Some h, tx_blockNumber = None,
          tx_outputs = Some [\<lparr>output_address = Some a, output_value = Some 20000\<rparr>],
          tx_inputs = Some []\<rparr>]
      = Inr \<lparr>incoming = Num 0, outgoing = Num 0, incomingPending = Num 20000,
             outgoingPending = Num 0, availableBalance = Num 0,
             unspentUTXOs =
               [\<lparr>unspent_utxo = utxoKey h 0, unspent_value = Some 20000,
                 unspent_confirmed = False\<rparr>]\<rparr>"
    by (simp add: analyzeUTXOs_def analyzeUTXOs_state_def initial_state_def Let_def
        js_round_exact)
qed

theorem sums_split_by_confirmation_witness:
  "\<exists>r. analyzeUTXOs ''me''
     [\<lparr>tx_hash = Some ''bb'', tx_blockNumber = None,
       tx_outputs = Some [\<lparr>output_address = Some ''you'', output_value = Some 4000\<rparr>,
                          \<lparr>output_address = Some ''me'', output_value = Some 900\<rparr>],
       tx_inputs = Some [\<lparr>input_coin = Some \<lparr>coin_address = Some ''me'', coin_value = Some 5000\<rparr>,
                          input_prevout = Some \<lparr>prevout_hash = ''aa'', prevout_index = 0\<rparr>\<rparr>]\<rparr>,
      \<lparr>tx_hash = Some ''aa'', tx_blockNumber = Some 7,
       tx_outputs = Some [\<lparr>output_address = Some ''me'', output_value = Some 5000\<rparr>,
                          \<lparr>output_address = Some ''you'', output_value = Some 100\<rparr>],
       tx_inputs = Some [\<lparr>input_coin = None, input_prevout = None\<rparr>]\<rparr>] = Inr r
   \<and> incoming r = Num 5000 \<and> incomingPending r = Num 900
   \<and> outgoing r = Num 0 \<and> outgoingPending r = Num 5000"
proof -
  let ?txs = "[\<lparr>tx_hash = Some ''bb'', tx_blockNumber = None,
       tx_outputs = Some [\<lparr>output_address = Some ''you'', output_value = Some 4000\<rparr>,
                          \<lparr>output_address = Some ''me'', output_value = Some 900\<rparr>],
       tx_inputs = Some [\<lparr>input_coin = Some \<lparr>coin_address = Some ''me'', coin_value = Some 5000\<rparr>,
                          input_prevout = Some \<lparr>prevout_hash = ''aa'', prevout_index = 0\<rparr>\<rparr>]\<rparr>,
      \<lparr>tx_hash = Some ''aa'', tx_blockNumber = Some 7,
       tx_outputs = Some [\<lparr>output_address = Some ''me'', output_value = Some 5000\<rparr>,
                          \<lparr>output_address = Some ''you'', output_value = Some 100\<rparr>],
       tx_inputs = Some [\<lparr>input_coin = None, input_prevout = None\<rparr>]\<rparr>]"
  have h: "\<forall>t \<in> set ?txs. readable ''me'' t"
    by (simp add: readable_def inputsReadable_def spends_def)
  have m: "magnitude (concat (map (received ''me'') (filter confirmedTx ?txs))) \<le> 2 ^ 53"
    "magnitude (concat (map (received ''me'') (filter (\<lambda>t. \<not> confirmedTx t) ?txs))) \<le> 2 ^ 53"
    "magnitude (concat (map (sent ''me'') (filter confirmedTx ?txs))) \<le> 2 ^ 53"
    "magnitude (concat (map (sent ''me'') (filter (\<lambda>t. \<not> confirmedTx t) ?txs))) \<le> 2 ^ 53"
    by (simp_all add: confirmedTx_def received_def sent_def paidValues_def coinValues_def
        magnitude_def)
  have e: "exact_total (concat (map (received ''me'') (filter confirmedTx ?txs))) = Num 5000"
    "exact_total (concat (map (received ''me'') (filter (\<lambda>t. \<not> confirmedTx t) ?txs))) = Num 900"
    "exact_total (concat (map (sent ''me'') (filter confirmedTx ?txs))) = Num 0"
    "exact_total (concat (map (sent ''me'') (filter (\<lambda>t. \<not> confirmedTx t) ?txs))) = Num 5000"
    by (simp_all add: confirmedTx_def received_def sent_def paidValues_def coinValues_def
        exact_total_def)
  from sums_split_by_confirmation[OF h, THEN conjunct1] m e
  show ?thesis by (metis (no_types, lifting))
qed

text \<open>
  The claim as the specification states it fails when the additions round: a confirmed
  transaction paying \<open>2^53\<close>, 1 and 1 to the address gives an \<open>incoming\<close> of \<open>2^53\<close>,
  while the values add up to \<open>2^53 + 2\<close>.
\<close>

theorem incoming_rounds:
  "analyzeUTXOs ''me''
     [\<lparr>tx_hash = Some ''aa'', tx_blockNumber = Some 7,
       tx_outputs = Some [\<lparr>output_address = Some ''me'', output_value = Some 9007199254740992\<rparr>,
                          \<lparr>output_address = Some ''me'', output_value = Some 1\<rparr>,
                          \<lparr>output_address = Some ''me'', output_value = Some 1\<rparr>],
       tx_inputs = Some []\<rparr>]
   = Inr \<lparr>incoming = Num 9007199254740992, outgoing = Num 0, incomingPending = Num 0,
          outgoingPending = Num 0, availableBalance = Num 9007199254740992,
          unspentUTXOs =
            [\<lparr>unspent_utxo = ''aa:0'', unspent_value = Some 9007199254740992,
               unspent_confirmed = True\<rparr>,
             \<lparr>unspent_utxo = ''aa:1'', unspent_value = Some 1, unspent_confirmed = True\<rparr>,
             \<lparr>unspent_utxo = ''aa:2'', unspent_value = Some 1, unspent_confirmed = True\<rparr>]\<rparr>
   \<and> (9007199254740992 :: int) + 1 + 1 = 9007199254740994"
  by code_simp

text \<open>
  Claim C2, as amended.  On a list on which no property read throws, \<open>analyzeUTXOs\<close>
  builds a map without repeated keys in which every entry belongs to an output of the
  list that pays the address: its value is the value of that output, it is confirmed when
  the transaction of that output has a block number, and it is spent when some
  transaction of the list consumes its output reference.  The available balance is the
  JavaScript sum, in the order of the map, of the values of exactly the entries that are
  not spent and are confirmed, which is also the sum over the confirmed elements of the
  returned array: no entry that is spent or pending is part of it.  As long as the
  absolute values of these entries total at most \<open>2^53\<close>, it is their exact integer sum
  (\<^verbatim>\<open>NaN\<close> when one of them has no value).
\<close>

theorem availableBalance_confirmed_unspent:
  assumes "\<forall>t \<in> set txs. readable a t"
  shows "\<exists>st r. analyzeUTXOs_state a txs = Inr st \<and> analyzeUTXOs a txs = Inr r
    \<and> distinct (map fst (st_utxos st))
    \<and> (\<forall>k u. (k, u) \<in> set (st_utxos st) \<longrightarrow>
          (\<exists>t \<in> set txs. \<exists>outs. tx_outputs t = Some outs
             \<and> (\<exists>j < length outs. output_address (outs ! j) = Some a
                   \<and> k = utxoKey (js_str (tx_hash t)) j
                   \<and> utxo_value u = output_value (outs ! j)
                   \<and> utxo_confirmed u = confirmedTx t
                   \<and> utxo_spent u = (\<exists>t' \<in> set txs. consumes a (js_str (tx_hash t)) j t'))))
    \<and> availableBalance r
        = js_total (map (\<lambda>(k, u). utxo_value u)
            (filter (\<lambda>(k, u). \<not> utxo_spent u \<and> utxo_confirmed u) (st_utxos st)))
    \<and> availableBalance r
        = js_total (map unspent_value (filter unspent_confirmed (unspentUTXOs r)))
    \<and> (magnitude (map (\<lambda>(k, u). utxo_value u)
            (filter (\<lambda>(k, u). \<not> utxo_spent u \<and> utxo_confirmed u) (st_utxos st))) \<le> 2 ^ 53
         \<longrightarrow> availableBalance r
           = (if \<exists>(k, u) \<in> {(k, u) \<in> set (st_utxos st). \<not> utxo_spent u \<and> utxo_confirmed u}.
                   utxo_value u = None
              then NaN
              else Num (\<Sum>(k, u) \<in> {(k, u) \<in> set (st_utxos st).
                                        \<not> utxo_spent u \<and> utxo_confirmed u}.
                          the (utxo_value u))))"
proof -
  from assms obtain st where st: "analyzeUTXOs_state a txs = Inr st"
    by (simp add: analyzeUTXOs_state_eq)
  let ?m = "st_utxos st"
  let ?r = "\<lparr>incoming = st_incoming st, outgoing = st_outgoing st,
          incomingPending = st_incomingPending st, outgoingPending = st_outgoingPending st,
          availableBalance = sumAvailable ?m (Num 0),
          unspentUTXOs =
            map (\<lambda>(key, u). \<lparr>unspent_utxo = key, unspent_value = utxo_value u,
                              unspent_confirmed = utxo_confirmed u\<rparr>)
              (filter (\<lambda>(key, u). \<not> utxo_spent u) ?m)\<rparr>"
  have r: "analyzeUTXOs a txs = Inr ?r"
    using st by (rule analyzeUTXOs_of_state)
  have d: "distinct (map fst ?m)"
    using st by (rule state_utxos_distinct)
  have origin: "\<forall>k u. (k, u) \<in> set ?m \<longrightarrow>
          (\<exists>t \<in> set txs. \<exists>outs. tx_outputs t = Some outs
             \<and> (\<exists>j < length outs. output_address (outs ! j) = Some a
                   \<and> k = utxoKey (js_str (tx_hash t)) j
                   \<and> utxo_value u = output_value (outs ! j)
                   \<and> utxo_confirmed u = confirmedTx t
                   \<and> utxo_spent u = (\<exists>t' \<in> set txs. consumes a (js_str (tx_hash t)) j t')))"
  proof (intro allI impI)
    fix k u assume "(k, u) \<in> set ?m"
    with st have "(k, u) \<in> set (allEntries a txs)"
      by (rule state_utxos_written)
    then obtain t outs j where t: "t \<in> set txs" "tx_outputs t = Some outs" "j < length outs"
      "output_address (outs ! j) = Some a" "k = utxoKey (js_str (tx_hash t)) j"
      "u = \<lparr>utxo_value = output_value (outs ! j),
             utxo_spent = (k \<in> set (spentKeys a txs)), utxo_confirmed = confirmedTx t\<rparr>"
      unfolding in_allEntries by blast
    from t(5,6) have "utxo_spent u = (\<exists>t' \<in> set txs. consumes a (js_str (tx_hash t)) j t')"
      by (simp add: spentKeys_consumes)
    with t have "\<exists>j < length outs. output_address (outs ! j) = Some a
                   \<and> k = utxoKey (js_str (tx_hash t)) j
                   \<and> utxo_value u = output_value (outs ! j)
                   \<and> utxo_confirmed u = confirmedTx t
                   \<and> utxo_spent u = (\<exists>t' \<in> set txs. consumes a (js_str (tx_hash t)) j t')"
      by (intro exI[of _ j]) simp
    with t(1,2) show "\<exists>t \<in> set txs. \<exists>outs. tx_outputs t = Some outs
             \<and> (\<exists>j < length outs. output_address (outs ! j) = Some a
                   \<and> k = utxoKey (js_str (tx_hash t)) j
                   \<and> utxo_value u = output_value (outs ! j)
                   \<and> utxo_confirmed u = confirmedTx t
                   \<and> utxo_spent u = (\<exists>t' \<in> set txs. consumes a (js_str (tx_hash t)) j t'))"
      by blast
  qed
  have s: "availableBalance ?r = js_total (availableValues ?m)"
    by (simp add: sumAvailable_eq js_total_def)
  have u: "availableBalance ?r
      = js_total (map unspent_value (filter unspent_confirmed (unspentUTXOs ?r)))"
    using s availableValues_unspent[of ?m] by simp
  have x: "availableBalance ?r
           = (if \<exists>(k, u) \<in> {(k, u) \<in> set ?m. \<not> utxo_spent u \<and> utxo_confirmed u}.
                   utxo_value u = None
              then NaN
              else Num (\<Sum>(k, u) \<in> {(k, u) \<in> set ?m. \<not> utxo_spent u \<and> utxo_confirmed u}.
                          the (utxo_value u)))"
    if "magnitude (availableValues ?m) \<le> 2 ^ 53"
    unfolding s js_total_exact[OF that] exact_total_def availableValues_None
      availableValues_sum[OF d] ..
  from st r d origin s u x show ?thesis
    unfolding availableValues_def
    by (intro exI[of _ st] exI[of _ ?r] conjI impI)
qed

theorem availableBalance_confirmed_unspent_witness:
  "\<exists>st r. analyzeUTXOs_state ''me''
     [\<lparr>tx_hash = Some ''aa'', tx_blockNumber = Some 7,
       tx_outputs = Some [\<lparr>output_address = Some ''me'', output_value = Some 5000\<rparr>,
                          \<lparr>output_address = Some ''me'', output_value = Some 300\<rparr>],
       tx_inputs = Some []\<rparr>,
      \<lparr>tx_hash = Some ''bb'', tx_blockNumber = None,
       tx_outputs = Some [\<lparr>output_address = Some ''me'', output_value = Some 900\<rparr>],
       tx_inputs = Some [\<lparr>input_coin = Some \<lparr>coin_address = Some ''me'', coin_value = Some 5000\<rparr>,
                          input_prevout = Some \<lparr>prevout_hash = ''aa'', prevout_index = 0\<rparr>\<rparr>]\<rparr>] = Inr st
   \<and> analyzeUTXOs ''me''
     [\<lparr>tx_hash = Some ''aa'', tx_blockNumber = Some 7,
       tx_outputs = Some [\<lparr>output_address = Some ''me'', output_value = Some 5000\<rparr>,
                          \<lparr>output_address = Some ''me'', output_value = Some 300\<rparr>],
       tx_inputs = Some []\<rparr>,
      \<lparr>tx_hash = Some ''bb'', tx_blockNumber = None,
       tx_outputs = Some [\<lparr>output_address = Some ''me'', output_value = Some 900\<rparr>],
       tx_inputs = Some [\<lparr>input_coin = Some \<lparr>coin_address = Some ''me'', coin_value = Some 5000\<rparr>,
                          input_prevout = Some \<lparr>prevout_hash = ''aa'', prevout_index = 0\<rparr>\<rparr>]\<rparr>] = Inr r
   \<and> availableBalance r = Num 300"
proof -
  let ?txs = "[\<lparr>tx_hash = Some ''aa'', tx_blockNumber = Some 7,
       tx_outputs = Some [\<lparr>output_address = Some ''me'', output_value = Some 5000\<rparr>,
                          \<lparr>output_address = Some ''me'', output_value = Some 300\<rparr>],
       tx_inputs = Some []\<rparr>,
      \<lparr>tx_hash = Some ''bb'', tx_blockNumber = None,
       tx_outputs = Some [\<lparr>output_address = Some ''me'', output_value = Some 900\<rparr>],
       tx_inputs = Some [\<lparr>input_coin = Some \<lparr>coin_address = Some ''me'', coin_value = Some 5000\<rparr>,
                          input_prevout = Some \<lparr>prevout_hash = ''aa'', prevout_index = 0\<rparr>\<rparr>]\<rparr>]"
  let ?st = "\<lparr>st_utxos =
       [(''aa:0'', \<lparr>utxo_value = Some 5000, utxo_spent = True, utxo_confirmed = True\<rparr>),
        (''aa:1'', \<lparr>utxo_value = Some 300, utxo_spent = False, utxo_confirmed = True\<rparr>),
        (''bb:0'', \<lparr>utxo_value = Some 900, utxo_spent = False, utxo_confirmed = False\<rparr>)],
      st_incoming = Num 5300, st_outgoing = Num 0,
      st_incomingPending = Num 900, st_outgoingPending = Num 5000\<rparr>"
  have h: "\<forall>t \<in> set ?txs. readable ''me'' t"
    by (simp add: readable_def inputsReadable_def spends_def)
  have c: "analyzeUTXOs_state ''me'' ?txs = Inr ?st" by code_simp
  from availableBalance_confirmed_unspent[OF h]
  obtain st r where s: "analyzeUTXOs_state ''me'' ?txs = Inr st"
    "analyzeUTXOs ''me'' ?txs = Inr r"
    "availableBalance r
        = js_total (map (\<lambda>(k, u). utxo_value u)
            (filter (\<lambda>(k, u). \<not> utxo_spent u \<and> utxo_confirmed u) (st_utxos st)))"
    by blast
  from s(1) c have "st = ?st" by simp
  with s(3) have "availableBalance r = Num 300"
    by (simp add: js_total_def js_sum_from_def js_round_exact)
  with s(1,2) show ?thesis by blast
qed

text \<open>
  The claim as the specification states it fails when the additions round: three
  confirmed unspent outputs of \<open>2^53\<close>, 1 and 1 give an available balance of \<open>2^53\<close>,
  while their values add up to \<open>2^53 + 2\<close>.
\<close>

theorem availableBalance_rounds:
  "analyzeUTXOs ''me''
     [\<lparr>tx_hash = Some ''aa'', tx_blockNumber = Some 7,
       tx_outputs = Some [\<lparr>output_address = Some ''me'', output_value = Some 9007199254740992\<rparr>],
       tx_inputs = Some []\<rparr>,
      \<lparr>tx_hash = Some ''bb'', tx_blockNumber = Some 8,
       tx_outputs = Some [\<lparr>output_address = Some ''me'', output_value = Some 1\<rparr>],
       tx_inputs = Some []\<rparr>,
      \<lparr>tx_hash = Some ''cc'', tx_blockNumber = Some 9,
       tx_outputs = Some [\<lparr>output_address = Some ''me'', output_value = Some 1\<rparr>],
       tx_inputs = Some []\<rparr>]
   = Inr \<lparr>incoming = Num 9007199254740992, outgoing = Num 0, incomingPending = Num 0,
          outgoingPending = Num 0, availableBalance = Num 9007199254740992,
          unspentUTXOs =
            [\<lparr>unspent_utxo = ''aa:0'', unspent_value = Some 9007199254740992,
               unspent_confirmed = True\<rparr>,
             \<lparr>unspent_utxo = ''bb:0'', unspent_value = Some 1, unspent_confirmed = True\<rparr>,
             \<lparr>unspent_utxo = ''cc:0'', unspent_value = Some 1, unspent_confirmed = True\<rparr>]\<rparr>
   \<and> (9007199254740992 :: int) + 1 + 1 = 9007199254740994"
  by code_simp

text \<open>
  Claim C3.  On a list on which no property read throws, \<open>analyzeUTXOs\<close> builds a map in
  which the entry of the output reference \<open>(h, i)\<close> is marked spent exactly when some
  transaction of the list, wherever it stands, has an input that passes the address test
  and whose \<open>prevout\<close> is \<open>(h, i)\<close>.  Every output of the list that pays the address has
  such an entry, and its key is in the returned array of unspent outputs exactly when no
  transaction consumes it.  So an output created by one transaction and consumed by
  another is marked spent in either order of the two.
\<close>

theorem spent_iff_consumed:
  assumes "\<forall>t \<in> set txs. readable a t"
  shows "\<exists>st r. analyzeUTXOs_state a txs = Inr st \<and> analyzeUTXOs a txs = Inr r
    \<and> (\<forall>h i e. map_of (st_utxos st) (utxoKey h i) = Some e \<longrightarrow>
           (utxo_spent e \<longleftrightarrow> (\<exists>t \<in> set txs. consumes a h i t)))
    \<and> (\<forall>x h outs j. x \<in> set txs \<and> tx_hash x = Some h \<and> tx_outputs x = Some outs
           \<and> j < length outs \<and> output_address (outs ! j) = Some a \<longrightarrow>
         (\<exists>e. map_of (st_utxos st) (utxoKey h j) = Some e
            \<and> (utxo_spent e \<longleftrightarrow> (\<exists>t \<in> set txs. consumes a h j t))
            \<and> ((\<exists>u \<in> set (unspentUTXOs r). unspent_utxo u = utxoKey h j)
                 \<longleftrightarrow> \<not> (\<exists>t \<in> set txs. consumes a h j t))))"
proof -
  from assms obtain st where st: "analyzeUTXOs_state a txs = Inr st"
    by (simp add: analyzeUTXOs_state_eq)
  let ?m = "st_utxos st"
  let ?r = "\<lparr>incoming = st_incoming st, outgoing = st_outgoing st,
          incomingPending = st_incomingPending st, outgoingPending = st_outgoingPending st,
          availableBalance = sumAvailable ?m (Num 0),
          unspentUTXOs =
            map (\<lambda>(key, u). \<lparr>unspent_utxo = key, unspent_value = utxo_value u,
                              unspent_confirmed = utxo_confirmed u\<rparr>)
              (filter (\<lambda>(key, u). \<not> utxo_spent u) ?m)\<rparr>"
  have r: "analyzeUTXOs a txs = Inr ?r"
    using st by (rule analyzeUTXOs_of_state)
  have d: "distinct (map fst ?m)"
    using st by (rule state_utxos_distinct)
  have spent: "utxo_spent e \<longleftrightarrow> (\<exists>t \<in> set txs. consumes a h i t)"
    if "map_of ?m (utxoKey h i) = Some e" for h i e
  proof -
    from that have "(utxoKey h i, e) \<in> set ?m"
      by (rule map_of_SomeD)
    with st have "(utxoKey h i, e) \<in> set (allEntries a txs)"
      by (rule state_utxos_written)
    then have "utxo_spent e \<longleftrightarrow> utxoKey h i \<in> set (spentKeys a txs)"
      by (auto simp: in_allEntries)
    then show ?thesis by (simp add: spentKeys_consumes)
  qed
  have present: "\<exists>e. map_of ?m (utxoKey h j) = Some e
            \<and> (utxo_spent e \<longleftrightarrow> (\<exists>t \<in> set txs. consumes a h j t))
            \<and> ((\<exists>u \<in> set (unspentUTXOs ?r). unspent_utxo u = utxoKey h j)
                 \<longleftrightarrow> \<not> (\<exists>t \<in> set txs. consumes a h j t))"
    if x: "x \<in> set txs \<and> tx_hash x = Some h \<and> tx_outputs x = Some outs
           \<and> j < length outs \<and> output_address (outs ! j) = Some a"
    for x h outs j
  proof -
    let ?k = "utxoKey h j"
    let ?e = "\<lparr>utxo_value = output_value (outs ! j),
               utxo_spent = (?k \<in> set (spentKeys a txs)), utxo_confirmed = confirmedTx x\<rparr>"
    from x have "(?k, ?e) \<in> set (allEntries a txs)"
      unfolding in_allEntries by (intro bexI[of _ x] exI[of _ outs] exI[of _ j]) auto
    then have "?k \<in> fst ` set (allEntries a txs)" by force
    with st have "?k \<in> fst ` set ?m" by (simp add: state_utxos_keys)
    then obtain e where e: "map_of ?m ?k = Some e"
      by (metis map_of_eq_None_iff not_None_eq)
    from spent[OF e] have s: "utxo_spent e \<longleftrightarrow> (\<exists>t \<in> set txs. consumes a h j t)" .
    from unspent_listed[OF d e] s
    have "(\<exists>u \<in> set (unspentUTXOs ?r). unspent_utxo u = ?k)
        \<longleftrightarrow> \<not> (\<exists>t \<in> set txs. consumes a h j t)"
      by simp
    with e s show ?thesis by blast
  qed
  from st r spent present show ?thesis
    by (intro exI[of _ st] exI[of _ ?r] conjI allI impI)
qed

theorem spent_iff_consumed_witness:
  "(\<exists>st. analyzeUTXOs_state ''me''
      [\<lparr>tx_hash = Some ''bb'', tx_blockNumber = None,
       tx_outputs = Some [\<lparr>output_address = Some ''you'', output_value = Some 4000\<rparr>,
                          \<lparr>output_address = Some ''me'', output_value = Some 900\<rparr>],
       tx_inputs = Some [\<lparr>input_coin = Some \<lparr>coin_address = Some ''me'', coin_value = Some 5000\<rparr>,
                          input_prevout = Some \<lparr>prevout_hash = ''aa'', prevout_index = 0\<rparr>\<rparr>]\<rparr>,
       \<lparr>tx_hash = Some ''aa'', tx_blockNumber = Some 7,
       tx_outputs = Some [\<lparr>output_address = Some ''me'', output_value = Some 5000\<rparr>,
                          \<lparr>output_address = Some ''you'', output_value = Some 100\<rparr>],
       tx_inputs = Some [\<lparr>input_coin = None, input_prevout = None\<rparr>]\<rparr>] = Inr st
     \<and> (\<exists>e. map_of (st_utxos st) (utxoKey ''aa'' 0) = Some e \<and> utxo_spent e))
   \<and> (\<exists>st. analyzeUTXOs_state ''me''
      [\<lparr>tx_hash = Some ''aa'', tx_blockNumber = Some 7,
       tx_outputs = Some [\<lparr>output_address = Some ''me'', output_value = Some 5000\<rparr>,
                          \<lparr>output_address = Some ''you'', output_value = Some 100\<rparr>],
       tx_inputs = Some [\<lparr>input_coin = None, input_prevout = None\<rparr>]\<rparr>,
       \<lparr>tx_hash = Some ''bb'', tx_blockNumber = None,
       tx_outputs = Some [\<lparr>output_address = Some ''you'', output_value = Some 4000\<rparr>,
                          \<lparr>output_address = Some ''me'', output_value = Some 900\<rparr>],
       tx_inputs = Some [\<lparr>input_coin = Some \<lparr>coin_address = Some ''me'', coin_value = Some 5000\<rparr>,
                          input_prevout = Some \<lparr>prevout_hash = ''aa'', prevout_index = 0\<rparr>\<rparr>]\<rparr>] = Inr st
     \<and> (\<exists>e. map_of (st_utxos st) (utxoKey ''aa'' 0) = Some e \<and> utxo_spent e))"
proof -
  let ?Y = "\<lparr>tx_hash = Some ''bb'', tx_blockNumber = None,
       tx_outputs = Some [\<lparr>output_address = Some ''you'', output_value = Some 4000\<rparr>,
                          \<lparr>output_address = Some ''me'', output_value = Some 900\<rparr>],
       tx_inputs = Some [\<lparr>input_coin = Some \<lparr>coin_address = Some ''me'', coin_value = Some 5000\<rparr>,
                          input_prevout = Some \<lparr>prevout_hash = ''aa'', prevout_index = 0\<rparr>\<rparr>]\<rparr>"
  let ?X = "\<lparr>tx_hash = Some ''aa'', tx_blockNumber = Some 7,
       tx_outputs = Some [\<lparr>output_address = Some ''me'', output_value = Some 5000\<rparr>,
                          \<lparr>output_address = Some ''you'', output_value = Some 100\<rparr>],
       tx_inputs = Some [\<lparr>input_coin = None, input_prevout = None\<rparr>]\<rparr>"
  let ?outs = "[\<lparr>output_address = Some ''me'', output_value = Some 5000\<rparr>,
                \<lparr>output_address = Some ''you'', output_value = Some 100\<rparr>]"
  have yx: "(\<exists>st. analyzeUTXOs_state ''me'' [?Y, ?X] = Inr st
     \<and> (\<exists>e. map_of (st_utxos st) (utxoKey ''aa'' 0) = Some e \<and> utxo_spent e))"
  proof -
    have h: "\<forall>t \<in> set [?Y, ?X]. readable ''me'' t"
      by (simp add: readable_def inputsReadable_def spends_def)
    have c: "\<exists>t \<in> set [?Y, ?X]. consumes ''me'' ''aa'' 0 t"
      by (simp add: consumes_def spends_def)
    from spent_iff_consumed[OF h] show ?thesis
    proof (elim exE conjE)
      fix st r
      assume s: "analyzeUTXOs_state ''me'' [?Y, ?X] = Inr st"
      assume p: "\<forall>x h outs j. x \<in> set [?Y, ?X] \<and> tx_hash x = Some h \<and> tx_outputs x = Some outs
           \<and> j < length outs \<and> output_address (outs ! j) = Some ''me'' \<longrightarrow>
         (\<exists>e. map_of (st_utxos st) (utxoKey h j) = Some e
            \<and> (utxo_spent e \<longleftrightarrow> (\<exists>t \<in> set [?Y, ?X]. consumes ''me'' h j t))
            \<and> ((\<exists>u \<in> set (unspentUTXOs r). unspent_utxo u = utxoKey h j)
                 \<longleftrightarrow> \<not> (\<exists>t \<in> set [?Y, ?X]. consumes ''me'' h j t)))"
    have "?X \<in> set [?Y, ?X] \<and> tx_hash ?X = Some ''aa'' \<and> tx_outputs ?X = Some ?outs
           \<and> 0 < length ?outs \<and> output_address (?outs ! 0) = Some ''me''"
      by simp
    with p obtain e where "map_of (st_utxos st) (utxoKey ''aa'' 0) = Some e"
      "utxo_spent e \<longleftrightarrow> (\<exists>t \<in> set [?Y, ?X]. consumes ''me'' ''aa'' 0 t)"
      by blast
      with c s show ?thesis by blast
    qed
  qed
  have xy: "(\<exists>st. analyzeUTXOs_state ''me'' [?X, ?Y] = Inr st
     \<and> (\<exists>e. map_of (st_utxos st) (utxoKey ''aa'' 0) = Some e \<and> utxo_spent e))"
  proof -
    have h: "\<forall>t \<in> set [?X, ?Y]. readable ''me'' t"
      by (simp add: readable_def inputsReadable_def spends_def)
    have c: "\<exists>t \<in> set [?X, ?Y]. consumes ''me'' ''aa'' 0 t"
      by (simp add: consumes_def spends_def)
    from spent_iff_consumed[OF h] show ?thesis
    proof (elim exE conjE)
      fix st r
      assume s: "analyzeUTXOs_state ''me'' [?X, ?Y] = Inr st"
      assume p: "\<forall>x h outs j. x \<in> set [?X, ?Y] \<and> tx_hash x = Some h \<and> tx_outputs x = Some outs
           \<and> j < length outs \<and> output_address (outs ! j) = Some ''me'' \<longrightarrow>
         (\<exists>e. map_of (st_utxos st) (utxoKey h j) = Some e
            \<and> (utxo_spent e \<longleftrightarrow> (\<exists>t \<in> set [?X, ?Y]. consumes ''me'' h j t))
            \<and> ((\<exists>u \<in> set (unspentUTXOs r). unspent_utxo u = utxoKey h j)
                 \<longleftrightarrow> \<not> (\<exists>t \<in> set [?X, ?Y]. consumes ''me'' h j t)))"
    have "?X \<in> set [?X, ?Y] \<and> tx_hash ?X = Some ''aa'' \<and> tx_outputs ?X = Some ?outs
           \<and> 0 < length ?outs \<and> output_address (?outs ! 0) = Some ''me''"
      by simp
    with p obtain e where "map_of (st_utxos st) (utxoKey ''aa'' 0) = Some e"
      "utxo_spent e \<longleftrightarrow> (\<exists>t \<in> set [?X, ?Y]. consumes ''me'' ''aa'' 0 t)"
      by blast
      with c s show ?thesis by blast
    qed
  qed
  from yx xy show ?thesis by (rule conjI)
qed

text \<open>
  Claim C5, as amended.  For a list and a reordering of it, \<open>analyzeUTXOs\<close> throws on both
  or returns on both.  When it returns, each of the four sums \<open>incoming\<close>,
  \<open>outgoing\<close>, \<open>incomingPending\<close> and \<open>outgoingPending\<close> is the same for the two orders
  as long as the absolute values that it adds total at most \<open>2^53\<close>.  When any two records
  of the list whose hashes give the same key text (an absent hash gives \<^verbatim>\<open>undefined\<close>)
  and that both pay the address at the same output position agree there on the value and
  on having a block number, the two maps hold the same entries: the same keys with the
  same value and the same spent and confirmed flags.  Then the returned arrays of unspent
  outputs have the same elements, and the available balance is the same as long as the
  absolute values of the available entries total at most \<open>2^53\<close>.
\<close>

theorem reordering_keeps_classification:
  assumes "mset txs = mset txs'"
  shows "(analyzeUTXOs a txs = Inl TypeError \<and> analyzeUTXOs a txs' = Inl TypeError)
   \<or> (\<exists>st st' r r'.
         analyzeUTXOs_state a txs = Inr st \<and> analyzeUTXOs_state a txs' = Inr st'
       \<and> analyzeUTXOs a txs = Inr r \<and> analyzeUTXOs a txs' = Inr r'
       \<and> (magnitude (incomingValues True a txs) \<le> 2 ^ 53 \<longrightarrow> incoming r = incoming r')
       \<and> (magnitude (outgoingValues True a txs) \<le> 2 ^ 53 \<longrightarrow> outgoing r = outgoing r')
       \<and> (magnitude (incomingValues False a txs) \<le> 2 ^ 53
            \<longrightarrow> incomingPending r = incomingPending r')
       \<and> (magnitude (outgoingValues False a txs) \<le> 2 ^ 53
            \<longrightarrow> outgoingPending r = outgoingPending r')
       \<and> (writesAgree a txs \<longrightarrow>
              map_of (st_utxos st) = map_of (st_utxos st')
            \<and> set (st_utxos st) = set (st_utxos st')
            \<and> set (unspentUTXOs r) = set (unspentUTXOs r')
            \<and> (magnitude (availableValues (st_utxos st)) \<le> 2 ^ 53
                 \<longrightarrow> availableBalance r = availableBalance r')))"
proof (cases "\<forall>t \<in> set txs. readable a t")
  case False
  from assms have s: "set txs = set txs'" by (rule mset_eq_setD)
  from False have "analyzeUTXOs a txs = Inl TypeError"
    unfolding analyzeUTXOs_eq by (rule if_not_P)
  moreover from False have "\<not> (\<forall>t \<in> set txs'. readable a t)" unfolding s .
  then have "analyzeUTXOs a txs' = Inl TypeError"
    by (simp only: analyzeUTXOs_eq if_False)
  ultimately show ?thesis by (intro disjI1 conjI)
next
  case True
  from assms have s: "set txs = set txs'" by (rule mset_eq_setD)
  from True have True': "\<forall>t \<in> set txs'. readable a t" unfolding s .
  let ?g = "\<lambda>(key, u). \<lparr>unspent_utxo = key, unspent_value = utxo_value u,
                          unspent_confirmed = utxo_confirmed u\<rparr>"
  let ?st = "\<lambda>l. \<lparr>st_utxos = setAll (allEntries a l) [],
                st_incoming = js_total (incomingValues True a l),
                st_outgoing = js_total (outgoingValues True a l),
                st_incomingPending = js_total (incomingValues False a l),
                st_outgoingPending = js_total (outgoingValues False a l)\<rparr>"
  let ?r = "\<lambda>l. \<lparr>incoming = st_incoming (?st l), outgoing = st_outgoing (?st l),
          incomingPending = st_incomingPending (?st l),
          outgoingPending = st_outgoingPending (?st l),
          availableBalance = sumAvailable (st_utxos (?st l)) (Num 0),
          unspentUTXOs = map ?g (filter (\<lambda>(key, u). \<not> utxo_spent u) (st_utxos (?st l)))\<rparr>"
  have st: "analyzeUTXOs_state a txs = Inr (?st txs)"
    using True unfolding analyzeUTXOs_state_eq by (rule if_P)
  have st': "analyzeUTXOs_state a txs' = Inr (?st txs')"
    using True' unfolding analyzeUTXOs_state_eq by (rule if_P)
  have r: "analyzeUTXOs a txs = Inr (?r txs)"
    using st by (rule analyzeUTXOs_of_state)
  have r': "analyzeUTXOs a txs' = Inr (?r txs')"
    using st' by (rule analyzeUTXOs_of_state)
  have i: "magnitude (incomingValues c a txs) \<le> 2 ^ 53
       \<Longrightarrow> js_total (incomingValues c a txs) = js_total (incomingValues c a txs')" for c
    using incomingValues_perm[OF assms] by (rule js_total_perm)
  have ou: "magnitude (outgoingValues c a txs) \<le> 2 ^ 53
       \<Longrightarrow> js_total (outgoingValues c a txs) = js_total (outgoingValues c a txs')" for c
    using outgoingValues_perm[OF assms] by (rule js_total_perm)
  have u: "map_of (st_utxos (?st txs)) = map_of (st_utxos (?st txs'))
         \<and> set (st_utxos (?st txs)) = set (st_utxos (?st txs'))
         \<and> set (unspentUTXOs (?r txs)) = set (unspentUTXOs (?r txs'))
         \<and> (magnitude (availableValues (st_utxos (?st txs))) \<le> 2 ^ 53
              \<longrightarrow> availableBalance (?r txs) = availableBalance (?r txs'))"
    if w: "writesAgree a txs"
  proof -
    let ?m = "setAll (allEntries a txs) []" and ?m' = "setAll (allEntries a txs') []"
    from utxos_reordered[OF s w] have m: "map_of ?m = map_of ?m'" and e: "set ?m = set ?m'" .
    have d: "distinct (map fst ?m)" "distinct (map fst ?m')"
      by (rule distinct_setAll, simp)+
    from d e have v: "mset (availableValues ?m) = mset (availableValues ?m')"
      by (rule availableValues_mset)
    have b: "sumAvailable ?m (Num 0) = sumAvailable ?m' (Num 0)"
      if "magnitude (availableValues ?m) \<le> 2 ^ 53"
      using js_total_perm[OF v that] by (simp only: sumAvailable_eq js_total_def)
    from e have "set (map ?g (filter (\<lambda>(key, u). \<not> utxo_spent u) ?m))
        = set (map ?g (filter (\<lambda>(key, u). \<not> utxo_spent u) ?m'))"
      by (rule unspent_set_cong)
    with m e b show ?thesis by simp
  qed
  from i ou have agg:
    "magnitude (incomingValues True a txs) \<le> 2 ^ 53 \<longrightarrow> incoming (?r txs) = incoming (?r txs')"
    "magnitude (outgoingValues True a txs) \<le> 2 ^ 53 \<longrightarrow> outgoing (?r txs) = outgoing (?r txs')"
    "magnitude (incomingValues False a txs) \<le> 2 ^ 53
       \<longrightarrow> incomingPending (?r txs) = incomingPending (?r txs')"
    "magnitude (outgoingValues False a txs) \<le> 2 ^ 53
       \<longrightarrow> outgoingPending (?r txs) = outgoingPending (?r txs')"
    by simp_all
  from u have u': "writesAgree a txs \<longrightarrow>
           map_of (st_utxos (?st txs)) = map_of (st_utxos (?st txs'))
         \<and> set (st_utxos (?st txs)) = set (st_utxos (?st txs'))
         \<and> set (unspentUTXOs (?r txs)) = set (unspentUTXOs (?r txs'))
         \<and> (magnitude (availableValues (st_utxos (?st txs))) \<le> 2 ^ 53
              \<longrightarrow> availableBalance (?r txs) = availableBalance (?r txs'))"
    by (rule impI)
  show ?thesis
    by (intro disjI2 exI[of _ "?st txs"] exI[of _ "?st txs'"] exI[of _ "?r txs"]
        exI[of _ "?r txs'"] conjI st st' r r' agg u')
qed

theorem reordering_keeps_classification_witness:
  "\<exists>st st' r r'.
     analyzeUTXOs_state ''me''
     [\<lparr>tx_hash = Some ''aa'', tx_blockNumber = Some 7,
       tx_outputs = Some [\<lparr>output_address = Some ''me'', output_value = Some 5000\<rparr>,
                          \<lparr>output_address = Some ''you'', output_value = Some 100\<rparr>],
       tx_inputs = Some []\<rparr>,
      \<lparr>tx_hash = Some ''bb'', tx_blockNumber = None,
       tx_outputs = Some [\<lparr>output_address = Some ''you'', output_value = Some 4000\<rparr>,
                          \<lparr>output_address = Some ''me'', output_value = Some 900\<rparr>],
       tx_inputs = Some [\<lparr>input_coin = Some \<lparr>coin_address = Some ''me'', coin_value = Some 5000\<rparr>,
                          input_prevout = Some \<lparr>prevout_hash = ''aa'', prevout_index = 0\<rparr>\<rparr>]\<rparr>,
      \<lparr>tx_hash = Some ''aa'', tx_blockNumber = Some 7,
       tx_outputs = Some [\<lparr>output_address = Some ''me'', output_value = Some 5000\<rparr>,
                          \<lparr>output_address = Some ''you'', output_value = Some 100\<rparr>],
       tx_inputs = Some []\<rparr>] = Inr st
   \<and> analyzeUTXOs_state ''me''
     [\<lparr>tx_hash = Some ''bb'', tx_blockNumber = None,
       tx_outputs = Some [\<lparr>output_address = Some ''you'', output_value = Some 4000\<rparr>,
                          \<lparr>output_address = Some ''me'', output_value = Some 900\<rparr>],
       tx_inputs = Some [\<lparr>input_coin = Some \<lparr>coin_address = Some ''me'', coin_value = Some 5000\<rparr>,
                          input_prevout = Some \<lparr>prevout_hash = ''aa'', prevout_index = 0\<rparr>\<rparr>]\<rparr>,
      \<lparr>tx_hash = Some ''aa'', tx_blockNumber = Some 7,
       tx_outputs = Some [\<lparr>output_address = Some ''me'', output_value = Some 5000\<rparr>,
                          \<lparr>output_address = Some ''you'', output_value = Some 100\<rparr>],
       tx_inputs = Some []\<rparr>,
      \<lparr>tx_hash = Some ''aa'', tx_blockNumber = Some 7,
       tx_outputs = Some [\<lparr>output_address = Some ''me'', output_value = Some 5000\<rparr>,
                          \<lparr>output_address = Some ''you'', output_value = Some 100\<rparr>],
       tx_inputs = Some []\<rparr>] = Inr st'
   \<and> analyzeUTXOs ''me''
     [\<lparr>tx_hash = Some ''aa'', tx_blockNumber = Some 7,
       tx_outputs = Some [\<lparr>output_address = Some ''me'', output_value = Some 5000\<rparr>,
                          \<lparr>output_address = Some ''you'', output_value = Some 100\<rparr>],
       tx_inputs = Some []\<rparr>,
      \<lparr>tx_hash = Some ''bb'', tx_blockNumber = None,
       tx_outputs = Some [\<lparr>output_address = Some ''you'', output_value = Some 4000\<rparr>,
                          \<lparr>output_address = Some ''me'', output_value = Some 900\<rparr>],
       tx_inputs = Some [\<lparr>input_coin = Some \<lparr>coin_address = Some ''me'', coin_value = Some 5000\<rparr>,
                          input_prevout = Some \<lparr>prevout_hash = ''aa'', prevout_index = 0\<rparr>\<rparr>]\<rparr>,
      \<lparr>tx_hash = Some ''aa'', tx_blockNumber = Some 7,
       tx_outputs = Some [\<lparr>output_address = Some ''me'', output_value = Some 5000\<rparr>,
                          \<lparr>output_address = Some ''you'', output_value = Some 100\<rparr>],
       tx_inputs = Some []\<rparr>] = Inr r
   \<and> analyzeUTXOs ''me''
     [\<lparr>tx_hash = Some ''bb'', tx_blockNumber = None,
       tx_outputs = Some [\<lparr>output_address = Some ''you'', output_value = Some 4000\<rparr>,
                          \<lparr>output_address = Some ''me'', output_value = Some 900\<rparr>],
       tx_inputs = Some [\<lparr>input_coin = Some \<lparr>coin_address = Some ''me'', coin_value = Some 5000\<rparr>,
                          input_prevout = Some \<lparr>prevout_hash = ''aa'', prevout_index = 0\<rparr>\<rparr>]\<rparr>,
      \<lparr>tx_hash = Some ''aa'', tx_blockNumber = Some 7,
       tx_outputs = Some [\<lparr>output_address = Some ''me'', output_value = Some 5000\<rparr>,
                          \<lparr>output_address = Some ''you'', output_value = Some 100\<rparr>],
       tx_inputs = Some []\<rparr>,
      \<lparr>tx_hash = Some ''aa'', tx_blockNumber = Some 7,
       tx_outputs = Some [\<lparr>output_address = Some ''me'', output_value = Some 5000\<rparr>,
                          \<lparr>output_address = Some ''you'', output_value = Some 100\<rparr>],
       tx_inputs = Some []\<rparr>] = Inr r'
   \<and> incoming r = incoming r' \<and> outgoing r = outgoing r'
   \<and> incomingPending r = incomingPending r' \<and> outgoingPending r = outgoingPending r'
   \<and> map_of (st_utxos st) = map_of (st_utxos st') \<and> set (st_utxos st) = set (st_utxos st')
   \<and> set (unspentUTXOs r) = set (unspentUTXOs r') \<and> availableBalance r = availableBalance r'"
proof -
  let ?X = "\<lparr>tx_hash = Some ''aa'', tx_blockNumber = Some 7,
       tx_outputs = Some [\<lparr>output_address = Some ''me'', output_value = Some 5000\<rparr>,
                          \<lparr>output_address = Some ''you'', output_value = Some 100\<rparr>],
       tx_inputs = Some []\<rparr>"
  let ?Y = "\<lparr>tx_hash = Some ''bb'', tx_blockNumber = None,
       tx_outputs = Some [\<lparr>output_address = Some ''you'', output_value = Some 4000\<rparr>,
                          \<lparr>output_address = Some ''me'', output_value = Some 900\<rparr>],
       tx_inputs = Some [\<lparr>input_coin = Some \<lparr>coin_address = Some ''me'', coin_value = Some 5000\<rparr>,
                          input_prevout = Some \<lparr>prevout_hash = ''aa'', prevout_index = 0\<rparr>\<rparr>]\<rparr>"
  let ?st = "\<lparr>st_utxos =
       [(''aa:0'', \<lparr>utxo_value = Some 5000, utxo_spent = True, utxo_confirmed = True\<rparr>),
        (''bb:1'', \<lparr>utxo_value = Some 900, utxo_spent = False, utxo_confirmed = False\<rparr>)],
      st_incoming = Num 10000, st_outgoing = Num 0,
      st_incomingPending = Num 900, st_outgoingPending = Num 5000\<rparr>"
  have p: "mset [?X, ?Y, ?X] = mset [?Y, ?X, ?X]" by simp
  have c: "analyzeUTXOs_state ''me'' [?X, ?Y, ?X] = Inr ?st" by code_simp
  have ok: "analyzeUTXOs ''me'' [?X, ?Y, ?X] \<noteq> Inl TypeError" by code_simp
  have w: "writesAgree ''me'' [?X, ?Y, ?X]" by code_simp
  have m: "magnitude (incomingValues True ''me'' [?X, ?Y, ?X]) \<le> 2 ^ 53"
    "magnitude (outgoingValues True ''me'' [?X, ?Y, ?X]) \<le> 2 ^ 53"
    "magnitude (incomingValues False ''me'' [?X, ?Y, ?X]) \<le> 2 ^ 53"
    "magnitude (outgoingValues False ''me'' [?X, ?Y, ?X]) \<le> 2 ^ 53"
    "magnitude (availableValues (st_utxos ?st)) \<le> 2 ^ 53"
    by code_simp+
  from reordering_keeps_classification[OF p, of "''me''"] ok
  have "\<exists>st st' r r'.
         analyzeUTXOs_state ''me'' [?X, ?Y, ?X] = Inr st
       \<and> analyzeUTXOs_state ''me'' [?Y, ?X, ?X] = Inr st'
       \<and> analyzeUTXOs ''me'' [?X, ?Y, ?X] = Inr r \<and> analyzeUTXOs ''me'' [?Y, ?X, ?X] = Inr r'
       \<and> (magnitude (incomingValues True ''me'' [?X, ?Y, ?X]) \<le> 2 ^ 53
            \<longrightarrow> incoming r = incoming r')
       \<and> (magnitude (outgoingValues True ''me'' [?X, ?Y, ?X]) \<le> 2 ^ 53
            \<longrightarrow> outgoing r = outgoing r')
       \<and> (magnitude (incomingValues False ''me'' [?X, ?Y, ?X]) \<le> 2 ^ 53
            \<longrightarrow> incomingPending r = incomingPending r')
       \<and> (magnitude (outgoingValues False ''me'' [?X, ?Y, ?X]) \<le> 2 ^ 53
            \<longrightarrow> outgoingPending r = outgoingPending r')
       \<and> (writesAgree ''me'' [?X, ?Y, ?X] \<longrightarrow>
              map_of (st_utxos st) = map_of (st_utxos st')
            \<and> set (st_utxos st) = set (st_utxos st')
            \<and> set (unspentUTXOs r) = set (unspentUTXOs r')
            \<and> (magnitude (availableValues (st_utxos st)) \<le> 2 ^ 53
                 \<longrightarrow> availableBalance r = availableBalance r'))"
    by blast
  then show ?thesis
  proof (elim exE conjE)
    fix st st' r r'
    assume s: "analyzeUTXOs_state ''me'' [?X, ?Y, ?X] = Inr st"
      "analyzeUTXOs_state ''me'' [?Y, ?X, ?X] = Inr st'"
      "analyzeUTXOs ''me'' [?X, ?Y, ?X] = Inr r" "analyzeUTXOs ''me'' [?Y, ?X, ?X] = Inr r'"
    assume a: "magnitude (incomingValues True ''me'' [?X, ?Y, ?X]) \<le> 2 ^ 53
            \<longrightarrow> incoming r = incoming r'"
      "magnitude (outgoingValues True ''me'' [?X, ?Y, ?X]) \<le> 2 ^ 53
            \<longrightarrow> outgoing r = outgoing r'"
      "magnitude (incomingValues False ''me'' [?X, ?Y, ?X]) \<le> 2 ^ 53
            \<longrightarrow> incomingPending r = incomingPending r'"
      "magnitude (outgoingValues False ''me'' [?X, ?Y, ?X]) \<le> 2 ^ 53
            \<longrightarrow> outgoingPending r = outgoingPending r'"
    assume u: "writesAgree ''me'' [?X, ?Y, ?X] \<longrightarrow>
              map_of (st_utxos st) = map_of (st_utxos st')
            \<and> set (st_utxos st) = set (st_utxos st')
            \<and> set (unspentUTXOs r) = set (unspentUTXOs r')
            \<and> (magnitude (availableValues (st_utxos st)) \<le> 2 ^ 53
                 \<longrightarrow> availableBalance r = availableBalance r')"
    from s(1) c have e: "st = ?st" by simp
    from m(5) have "magnitude (availableValues (st_utxos st)) \<le> 2 ^ 53" unfolding e .
    with u w have "map_of (st_utxos st) = map_of (st_utxos st')"
      "set (st_utxos st) = set (st_utxos st')" "set (unspentUTXOs r) = set (unspentUTXOs r')"
      "availableBalance r = availableBalance r'"
      by blast+
    moreover from a m(1-4) have "incoming r = incoming r'" "outgoing r = outgoing r'"
      "incomingPending r = incomingPending r'" "outgoingPending r = outgoingPending r'"
      by blast+
    ultimately show ?thesis using s
      by (intro exI[of _ st] exI[of _ st'] exI[of _ r] exI[of _ r'] conjI)
  qed
qed

text \<open>
  The claim as the specification states it fails in two ways.  When two records have
  the same hash, the one processed last decides the entry: a confirmed and a pending
  record with hash \<open>aa\<close> give an available balance of 0 in one order and of 5000 in the
  other.  When the additions round, the order decides the sum: three confirmed
  transactions paying \<open>2^53\<close>, 1 and 1 give an \<open>incoming\<close> of \<open>2^53\<close> in that order and of
  \<open>2^53 + 2\<close> when the large one comes last.
\<close>

theorem reordering_changes_result:
  "mset [\<lparr>tx_hash = Some ''aa'', tx_blockNumber = Some 7,
          tx_outputs = Some [\<lparr>output_address = Some ''me'', output_value = Some 5000\<rparr>],
          tx_inputs = Some []\<rparr>,
         \<lparr>tx_hash = Some ''aa'', tx_blockNumber = None,
          tx_outputs = Some [\<lparr>output_address = Some ''me'', output_value = Some 5000\<rparr>],
          tx_inputs = Some []\<rparr>]
   = mset [\<lparr>tx_hash = Some ''aa'', tx_blockNumber = None,
          tx_outputs = Some [\<lparr>output_address = Some ''me'', output_value = Some 5000\<rparr>],
          tx_inputs = Some []\<rparr>,
         \<lparr>tx_hash = Some ''aa'', tx_blockNumber = Some 7,
          tx_outputs = Some [\<lparr>output_address = Some ''me'', output_value = Some 5000\<rparr>],
          tx_inputs = Some []\<rparr>]
   \<and> analyzeUTXOs ''me''
        [\<lparr>tx_hash = Some ''aa'', tx_blockNumber = Some 7,
          tx_outputs = Some [\<lparr>output_address = Some ''me'', output_value = Some 5000\<rparr>],
          tx_inputs = Some []\<rparr>,
         \<lparr>tx_hash = Some ''aa'', tx_blockNumber = None,
          tx_outputs = Some [\<lparr>output_address = Some ''me'', output_value = Some 5000\<rparr>],
          tx_inputs = Some []\<rparr>]
      = Inr \<lparr>incoming = Num 5000, outgoing = Num 0, incomingPending = Num 5000,
             outgoingPending = Num 0, availableBalance = Num 0,
             unspentUTXOs =
               [\<lparr>unspent_utxo = ''aa:0'', unspent_value = Some 5000,
                 unspent_confirmed = False\<rparr>]\<rparr>
   \<and> analyzeUTXOs ''me''
        [\<lparr>tx_hash = Some ''aa'', tx_blockNumber = None,
          tx_outputs = Some [\<lparr>output_address = Some ''me'', output_value = Some 5000\<rparr>],
          tx_inputs = Some []\<rparr>,
         \<lparr>tx_hash = Some ''aa'', tx_blockNumber = Some 7,
          tx_outputs = Some [\<lparr>output_address = Some ''me'', output_value = Some 5000\<rparr>],
          tx_inputs = Some []\<rparr>]
      = Inr \<lparr>incoming = Num 5000, outgoing = Num 0, incomingPending = Num 5000,
             outgoingPending = Num 0, availableBalance = Num 5000,
             unspentUTXOs =
               [\<lparr>unspent_utxo = ''aa:0'', unspent_value = Some 5000,
                 unspent_confirmed = True\<rparr>]\<rparr>
   \<and> mset [\<lparr>tx_hash = Some ''pp'', tx_blockNumber = Some 7,
          tx_outputs = Some [\<lparr>output_address = Some ''me'', output_value = Some 9007199254740992\<rparr>],
          tx_inputs = Some []\<rparr>,
         \<lparr>tx_hash = Some ''qq'', tx_blockNumber = Some 7,
          tx_outputs = Some [\<lparr>output_address = Some ''me'', output_value = Some 1\<rparr>],
          tx_inputs = Some []\<rparr>,
         \<lparr>tx_hash = Some ''rr'', tx_blockNumber = Some 7,
          tx_outputs = Some [\<lparr>output_address = Some ''me'', output_value = Some 1\<rparr>],
          tx_inputs = Some []\<rparr>]
   = mset [\<lparr>tx_hash = Some ''qq'', tx_blockNumber = Some 7,
          tx_outputs = Some [\<lparr>output_address = Some ''me'', output_value = Some 1\<rparr>],
          tx_inputs = Some []\<rparr>,
         \<lparr>tx_hash = Some ''rr'', tx_blockNumber = Some 7,
          tx_outputs = Some [\<lparr>output_address = Some ''me'', output_value = Some 1\<rparr>],
          tx_inputs = Some []\<rparr>,
         \<lparr>tx_hash = Some ''pp'', tx_blockNumber = Some 7,
          tx_outputs = Some [\<lparr>output_address = Some ''me'', output_value = Some 9007199254740992\<rparr>],
          tx_inputs = Some []\<rparr>]
   \<and> analyzeUTXOs ''me''
        [\<lparr>tx_hash = Some ''pp'', tx_blockNumber = Some 7,
          tx_outputs = Some [\<lparr>output_address = Some ''me'', output_value = Some 9007199254740992\<rparr>],
          tx_inputs = Some []\<rparr>,
         \<lparr>tx_hash = Some ''qq'', tx_blockNumber = Some 7,
          tx_outputs = Some [\<lparr>output_address = Some ''me'', output_value = Some 1\<rparr>],
          tx_inputs = Some []\<rparr>,
         \<lparr>tx_hash = Some ''rr'', tx_blockNumber = Some 7,
          tx_outputs = Some [\<lparr>output_address = Some ''me'', output_value = Some 1\<rparr>],
          tx_inputs = Some []\<rparr>]
      = Inr \<lparr>incoming = Num 9007199254740992, outgoing = Num 0, incomingPending = Num 0,
             outgoingPending = Num 0, availableBalance = Num 9007199254740992,
             unspentUTXOs =
               [\<lparr>unspent_utxo = ''pp:0'', unspent_value = Some 9007199254740992,
                 unspent_confirmed = True\<rparr>,
                \<lparr>unspent_utxo = ''qq:0'', unspent_value = Some 1,
                 unspent_confirmed = True\<rparr>,
                \<lparr>unspent_utxo = ''rr:0'', unspent_value = Some 1,
                 unspent_confirmed = True\<rparr>]\<rparr>
   \<and> analyzeUTXOs ''me''
        [\<lparr>tx_hash = Some ''qq'', tx_blockNumber = Some 7,
          tx_outputs = Some [\<lparr>output_address = Some ''me'', output_value = Some 1\<rparr>],
          tx_inputs = Some []\<rparr>,
         \<lparr>tx_hash = Some ''rr'', tx_blockNumber = Some 7,
          tx_outputs = Some [\<lparr>output_address = Some ''me'', output_value = Some 1\<rparr>],
          tx_inputs = Some []\<rparr>,
         \<lparr>tx_hash = Some ''pp'', tx_blockNumber = Some 7,
          tx_outputs = Some [\<lparr>output_address = Some ''me'', output_value = Some 9007199254740992\<rparr>],
          tx_inputs = Some []\<rparr>]
      = Inr \<lparr>incoming = Num 9007199254740994, outgoing = Num 0, incomingPending = Num 0,
             outgoingPending = Num 0, availableBalance = Num 9007199254740994,
             unspentUTXOs =
               [\<lparr>unspent_utxo = ''qq:0'', unspent_value = Some 1,
                 unspent_confirmed = True\<rparr>,
                \<lparr>unspent_utxo = ''rr:0'', unspent_value = Some 1,
                 unspent_confirmed = True\<rparr>,
                \<lparr>unspent_utxo = ''pp:0'', unspent_value = Some 9007199254740992,
                 unspent_confirmed = True\<rparr>]\<rparr>"
proof (intro conjI)
  show "mset [\<lparr>tx_hash = Some ''aa'', tx_blockNumber = Some 7,
          tx_outputs = Some [\<lparr>output_address = Some ''me'', output_value = Some 5000\<rparr>],
          tx_inputs = Some []\<rparr>,
         \<lparr>tx_hash = Some ''aa'', tx_blockNumber = None,
          tx_outputs = Some [\<lparr>output_address = Some ''me'', output_value = Some 5000\<rparr>],
          tx_inputs = Some []\<rparr>]
   = mset [\<lparr>tx_hash = Some ''aa'', tx_blockNumber = None,
          tx_outputs = Some [\<lparr>output_address = Some ''me'', output_value = Some 5000\<rparr>],
          tx_inputs = Some []\<rparr>,
         \<lparr>tx_hash = Some ''aa'', tx_blockNumber = Some 7,
          tx_outputs = Some [\<lparr>output_address = Some ''me'', output_value = Some 5000\<rparr>],
          tx_inputs = Some []\<rparr>]"
    by simp
next
  show "analyzeUTXOs ''me''
        [\<lparr>tx_hash = Some ''aa'', tx_blockNumber = Some 7,
          tx_outputs = Some [\<lparr>output_address = Some ''me'', output_value = Some 5000\<rparr>],
          tx_inputs = Some []\<rparr>,
         \<lparr>tx_hash = Some ''aa'', tx_blockNumber = None,
          tx_outputs = Some [\<lparr>output_address = Some ''me'', output_value = Some 5000\<rparr>],
          tx_inputs = Some []\<rparr>]
      = Inr \<lparr>incoming = Num 5000, outgoing = Num 0, incomingPending = Num 5000,
             outgoingPending = Num 0, availableBalance = Num 0,
             unspentUTXOs =
               [\<lparr>unspent_utxo = ''aa:0'', unspent_value = Some 5000,
                 unspent_confirmed = False\<rparr>]\<rparr>"
    by code_simp
next
  show "analyzeUTXOs ''me''
        [\<lparr>tx_hash = Some ''aa'', tx_blockNumber = None,
          tx_outputs = Some [\<lparr>output_address = Some ''me'', output_value = Some 5000\<rparr>],
          tx_inputs = Some []\<rparr>,
         \<lparr>tx_hash = Some ''aa'', tx_blockNumber = Some 7,
          tx_outputs = Some [\<lparr>output_address = Some ''me'', output_value = Some 5000\<rparr>],
          tx_inputs = Some []\<rparr>]
      = Inr \<lparr>incoming = Num 5000, outgoing = Num 0, incomingPending = Num 5000,
             outgoingPending = Num 0, availableBalance = Num 5000,
             unspentUTXOs =
               [\<lparr>unspent_utxo = ''aa:0'', unspent_value = Some 5000,
                 unspent_confirmed = True\<rparr>]\<rparr>"
    by code_simp
next
  show "mset [\<lparr>tx_hash = Some ''pp'', tx_blockNumber = Some 7,
          tx_outputs = Some [\<lparr>output_address = Some ''me'', output_value = Some 9007199254740992\<rparr>],
          tx_inputs = Some []\<rparr>,
         \<lparr>tx_hash = Some ''qq'', tx_blockNumber = Some 7,
          tx_outputs = Some [\<lparr>output_address = Some ''me'', output_value = Some 1\<rparr>],
          tx_inputs = Some []\<rparr>,
         \<lparr>tx_hash = Some ''rr'', tx_blockNumber = Some 7,
          tx_outputs = Some [\<lparr>output_address = Some ''me'', output_value = Some 1\<rparr>],
          tx_inputs = Some []\<rparr>]
   = mset [\<lparr>tx_hash = Some ''qq'', tx_blockNumber = Some 7,
          tx_outputs = Some [\<lparr>output_address = Some ''me'', output_value = Some 1\<rparr>],
          tx_inputs = Some []\<rparr>,
         \<lparr>tx_hash = Some ''rr'', tx_blockNumber = Some 7,
          tx_outputs = Some [\<lparr>output_address = Some ''me'', output_value = Some 1\<rparr>],
          tx_inputs = Some []\<rparr>,
         \<lparr>tx_hash = Some ''pp'', tx_blockNumber = Some 7,
          tx_outputs = Some [\<lparr>output_address = Some ''me'', output_value = Some 9007199254740992\<rparr>],
          tx_inputs = Some []\<rparr>]"
    by simp
next
  show "analyzeUTXOs ''me''
        [\<lparr>tx_hash = Some ''pp'', tx_blockNumber = Some 7,
          tx_outputs = Some [\<lparr>output_address = Some ''me'', output_value = Some 9007199254740992\<rparr>],
          tx_inputs = Some []\<rparr>,
         \<lparr>tx_hash = Some ''qq'', tx_blockNumber = Some 7,
          tx_outputs = Some [\<lparr>output_address = Some ''me'', output_value = Some 1\<rparr>],
          tx_inputs = Some []\<rparr>,
         \<lparr>tx_hash = Some ''rr'', tx_blockNumber = Some 7,
          tx_outputs = Some [\<lparr>output_address = Some ''me'', output_value = Some 1\<rparr>],
          tx_inputs = Some []\<rparr>]
      = Inr \<lparr>incoming = Num 9007199254740992, outgoing = Num 0, incomingPending = Num 0,
             outgoingPending = Num 0, availableBalance = Num 9007199254740992,
             unspentUTXOs =
               [\<lparr>unspent_utxo = ''pp:0'', unspent_value = Some 9007199254740992,
                 unspent_confirmed = True\<rparr>,
                \<lparr>unspent_utxo = ''qq:0'', unspent_value = Some 1,
                 unspent_confirmed = True\<rparr>,
                \<lparr>unspent_utxo = ''rr:0'', unspent_value = Some 1,
                 unspent_confirmed = True\<rparr>]\<rparr>"
    by code_simp
next
  show "analyzeUTXOs ''me''
        [\<lparr>tx_hash = Some ''qq'', tx_blockNumber = Some 7,
          tx_outputs = Some [\<lparr>output_address = Some ''me'', output_value = Some 1\<rparr>],
          tx_inputs = Some []\<rparr>,
         \<lparr>tx_hash = Some ''rr'', tx_blockNumber = Some 7,
          tx_outputs = Some [\<lparr>output_address = Some ''me'', output_value = Some 1\<rparr>],
          tx_inputs = Some []\<rparr>,
         \<lparr>tx_hash = Some ''pp'', tx_blockNumber = Some 7,
          tx_outputs = Some [\<lparr>output_address = Some ''me'', output_value = Some 9007199254740992\<rparr>],
          tx_inputs = Some []\<rparr>]
      = Inr \<lparr>incoming = Num 9007199254740994, outgoing = Num 0, incomingPending = Num 0,
             outgoingPending = Num 0, availableBalance = Num 9007199254740994,
             unspentUTXOs =
               [\<lparr>unspent_utxo = ''qq:0'', unspent_value = Some 1,
                 unspent_confirmed = True\<rparr>,
                \<lparr>unspent_utxo = ''rr:0'', unspent_value = Some 1,
                 unspent_confirmed = True\<rparr>,
                \<lparr>unspent_utxo = ''pp:0'', unspent_value = Some 9007199254740992,
                 unspent_confirmed = True\<rparr>]\<rparr>"
    by code_simp
qed

end
